theory Spec2Isabelle
  imports Complex_Main "HOL-Library.AList"
begin

section \<open>The USD exporter of \<^verbatim>\<open>python/mujoco/usd/exporter.py\<close>\<close>

text \<open>
  The class \<^verbatim>\<open>USDExporter\<close> mirrors the renderer's scene snapshot into a time-sampled
  USD stage. Its attributes become the record \<open>exporter\<close>; every method takes the
  exporter and returns the updated one, or the exception it raises (\<open>Inl\<close>). A raised
  exception ends the session: the half-updated object is not part of the model.
  Python floats are modelled by \<open>real\<close>, Python ints by \<open>int\<close>.
  Leading underscores of method names are dropped (\<open>_load_geom\<close> is \<open>load_geom\<close>).
  What is written to disk (directories, texture images, the exported file) is outside the
  state; \<open>save_scene\<close> returns the file it exports.
\<close>

subsection \<open>Errors and Python helpers\<close>

datatype value_error =
    ImageWidthExceeds int int
  | ImageHeightExceeds int int
  | ReshapeSize nat nat

datatype error =
    ValueError value_error
  | AssertionError
  | IndexError
  | KeyError
  | TypeError
  | ExpiredPrim
  | RendererError

text \<open>Indexing of a Python list or numpy array: a negative index counts from the end.\<close>

definition py_index :: "'a list \<Rightarrow> int \<Rightarrow> error + 'a" where
  "py_index xs i =
     (if 0 \<le> i \<and> i < int (length xs) then Inr (xs ! nat i)
      else if i < 0 \<and> - int (length xs) \<le> i then Inr (xs ! nat (int (length xs) + i))
      else Inl IndexError)"

text \<open>\<^verbatim>\<open>str(n)\<close> and the \<^verbatim>\<open>{n}\<close> of an f-string, for an int.\<close>

fun str_nat :: "nat \<Rightarrow> string" where
  "str_nat n =
     (if n < 10 then [''0123456789'' ! n]
      else str_nat (n div 10) @ [''0123456789'' ! (n mod 10)])"

declare str_nat.simps [simp del]

definition str_int :: "int \<Rightarrow> string" where
  "str_int i = (if i < 0 then ''-'' @ str_nat (nat (- i)) else str_nat (nat i))"

subsection \<open>The simulator's data: model, scene snapshot\<close>

type_synonym vec3 = "real \<times> real \<times> real"
type_synonym mat3 = "vec3 \<times> vec3 \<times> vec3"
type_synonym rgba = "real \<times> real \<times> real \<times> real"

datatype mjtObj = mjOBJ_GEOM | mjOBJ_TENDON | mjOBJ_OTHER int

datatype mjtGeom = mjGEOM_MESH | mjGEOM_OTHER int

record mjvGeom =
  geom_type :: mjtGeom
  geom_objtype :: mjtObj
  geom_objid :: int
  geom_segid :: int
  geom_matid :: int
  geom_rgba :: rgba
  geom_pos :: vec3
  geom_mat :: mat3
  geom_size :: vec3

record mjvLight =
  light_pos :: vec3
  light_diffuse :: vec3

record mjvGLCamera =
  cam_pos :: vec3
  cam_forward :: vec3
  cam_up :: vec3

text \<open>
  \<open>scene_geoms\<close> is \<^verbatim>\<open>scene.geoms[0:scene.ngeom]\<close>, \<open>scene_lights\<close> is
  \<^verbatim>\<open>scene.lights[0:scene.nlight]\<close>, \<open>scene_camera\<close> the pair \<^verbatim>\<open>scene.camera\<close>.
\<close>

record mjvScene =
  scene_geoms :: "mjvGeom list"
  scene_lights :: "mjvLight list"
  scene_camera :: "mjvGLCamera \<times> mjvGLCamera"

text \<open>
  The fields of \<^verbatim>\<open>MjModel\<close> the exporter reads. \<open>mj_id2name\<close> is the model's name table
  as \<^verbatim>\<open>mujoco.mj_id2name(model, objtype, objid)\<close> reads it (\<open>None\<close> for an object
  without a name); \<open>tex_data\<close> is the texture byte array.
\<close>

record mjModel =
  offwidth :: int
  offheight :: int
  mj_id2name :: "mjtObj \<Rightarrow> int \<Rightarrow> string option"
  ntex :: nat
  tex_height :: "nat list"
  tex_width :: "nat list"
  tex_nchannel :: "nat list"
  tex_data :: "nat list"
  tex_type :: "int list"
  mat_texid :: "int list list"
  geom_dataid :: "int list"

subsection \<open>The USD stage and the records of the \<^verbatim>\<open>mujoco.usd\<close> modules\<close>

text \<open>
  The modules \<^verbatim>\<open>objects\<close>, \<^verbatim>\<open>lights\<close>, \<^verbatim>\<open>camera\<close> and \<^verbatim>\<open>shapes\<close> of
  \<^verbatim>\<open>mujoco.usd\<close> are not among the sources. Their records are modelled from the
  specification: a record is a prim of the stage with time-sampled attributes (a map from
  the time-sample index to the value). The exporter holds a record by reference: a
  handle is the index of the prim in the stage's store, and a handle that is not in the
  stage (an expired prim) makes an update fail.
\<close>

record mesh_config =
  config_name :: string
  config_geom_type :: mjtGeom
  config_size :: vec3
  config_decouple :: bool

datatype object_kind =
    USDMesh int
  | USDTendon mesh_config
  | USDPrimitiveMesh mesh_config

record usd_object =
  obj_kind :: object_kind
  obj_name :: string
  obj_rgba :: rgba
  obj_textures :: "(string \<times> int) option list"
  xform_samples :: "int \<rightharpoonup> vec3 \<times> mat3"
  scale_samples :: "int \<rightharpoonup> vec3"
  visibility_samples :: "int \<rightharpoonup> bool"
  last_visible_frame :: int

datatype light_kind = USDSphereLight | USDDomeLight

record usd_light =
  light_kind :: light_kind
  light_obj_name :: string
  light_radius :: "real option"
  light_samples :: "int \<rightharpoonup> vec3 \<times> int \<times> vec3"
  light_default :: "(int \<times> vec3) option"

record usd_camera =
  camera_obj_name :: string
  camera_samples :: "int \<rightharpoonup> vec3 \<times> mat3"

record usd_stage =
  up_axis :: "string option"
  start_time_code :: "int option"
  end_time_code :: "int option"
  time_codes_per_second :: "real option"
  default_prim :: "string option"
  objects :: "usd_object list"
  lights :: "usd_light list"
  cameras :: "usd_camera list"


text \<open>
  Modelled from the spec: the constructors of the records (\<^verbatim>\<open>USDMesh\<close>, \<^verbatim>\<open>USDTendon\<close>,
  \<^verbatim>\<open>USDPrimitiveMesh\<close>, \<^verbatim>\<open>USDSphereLight\<close>, \<^verbatim>\<open>USDDomeLight\<close>, \<^verbatim>\<open>USDCamera\<close>) and
  \<^verbatim>\<open>shapes.mesh_config_generator\<close>, none of them among the sources. A constructor
  defines a new prim in the stage it is given, with no time sample yet, and returns the
  reference to it. The value \<open>last_visible_frame\<close> starts with is not given by the
  specification; it is a parameter (\<open>lvf_initial\<close> of the collaborators below).
\<close>

definition mesh_config_generator :: "string \<Rightarrow> mjtGeom \<Rightarrow> vec3 \<Rightarrow> bool \<Rightarrow> mesh_config" where
  "mesh_config_generator name gtype gsize decouple =
     \<lparr>config_name = name, config_geom_type = gtype, config_size = gsize,
      config_decouple = decouple\<rparr>"

definition new_object ::
  "int \<Rightarrow> object_kind \<Rightarrow> string \<Rightarrow> rgba \<Rightarrow> (string \<times> int) option list \<Rightarrow> usd_object" where
  "new_object lvf0 kind name col textures =
     \<lparr>obj_kind = kind, obj_name = name, obj_rgba = col, obj_textures = textures,
      xform_samples = Map.empty, scale_samples = Map.empty,
      visibility_samples = Map.empty, last_visible_frame = lvf0\<rparr>"

definition define_object :: "usd_stage \<Rightarrow> usd_object \<Rightarrow> nat \<times> usd_stage" where
  "define_object st ob = (length (objects st), st\<lparr>objects := objects st @ [ob]\<rparr>)"

definition new_light :: "light_kind \<Rightarrow> string \<Rightarrow> real option \<Rightarrow> usd_light" where
  "new_light kind name radius =
     \<lparr>light_kind = kind, light_obj_name = name, light_radius = radius,
      light_samples = Map.empty, light_default = None\<rparr>"

definition define_light :: "usd_stage \<Rightarrow> usd_light \<Rightarrow> nat \<times> usd_stage" where
  "define_light st l = (length (lights st), st\<lparr>lights := lights st @ [l]\<rparr>)"

definition new_camera :: "string \<Rightarrow> usd_camera" where
  "new_camera name = \<lparr>camera_obj_name = name, camera_samples = Map.empty\<rparr>"

definition define_camera :: "usd_stage \<Rightarrow> usd_camera \<Rightarrow> nat \<times> usd_stage" where
  "define_camera st cam = (length (cameras st), st\<lparr>cameras := cameras st @ [cam]\<rparr>)"

text \<open>
  Modelled from the spec: the methods \<^verbatim>\<open>update\<close> and \<^verbatim>\<open>update_visibility\<close> of a geometry
  record and its attribute \<^verbatim>\<open>last_visible_frame\<close> (module \<^verbatim>\<open>mujoco.usd.objects\<close>, not
  among the sources). The per-frame update writes position and orientation, the
  visibility and, for a tendon, the scale at the given time-sample index;
  \<open>last_visible_frame\<close> is the index of the latest update that was visible.
\<close>

definition object_record_update ::
  "vec3 \<Rightarrow> mat3 \<Rightarrow> vec3 option \<Rightarrow> bool \<Rightarrow> int \<Rightarrow> usd_object \<Rightarrow> usd_object" where
  "object_record_update p m scale visible frame ob =
     ob\<lparr>xform_samples := (xform_samples ob)(frame \<mapsto> (p, m)),
        scale_samples :=
          (case scale of None \<Rightarrow> scale_samples ob
           | Some sc \<Rightarrow> (scale_samples ob)(frame \<mapsto> sc)),
        visibility_samples := (visibility_samples ob)(frame \<mapsto> visible),
        last_visible_frame := (if visible then frame else last_visible_frame ob)\<rparr>"

definition object_update ::
  "usd_stage \<Rightarrow> nat \<Rightarrow> vec3 \<Rightarrow> mat3 \<Rightarrow> vec3 option \<Rightarrow> bool \<Rightarrow> int \<Rightarrow> error + usd_stage" where
  "object_update st h p m scale visible frame =
     (if h < length (objects st)
      then Inr (st\<lparr>objects :=
                  (objects st)[h := object_record_update p m scale visible frame (objects st ! h)]\<rparr>)
      else Inl ExpiredPrim)"

definition update_visibility :: "usd_stage \<Rightarrow> nat \<Rightarrow> bool \<Rightarrow> int \<Rightarrow> error + usd_stage" where
  "update_visibility st h visible frame =
     (if h < length (objects st)
      then Inr (st\<lparr>objects :=
                  (objects st)[h := (objects st ! h)
                     \<lparr>visibility_samples :=
                        (visibility_samples (objects st ! h))(frame \<mapsto> visible)\<rparr>]\<rparr>)
      else Inl ExpiredPrim)"

text \<open>
  Modelled from the spec: the method \<^verbatim>\<open>update\<close> of a light record (module
  \<^verbatim>\<open>mujoco.usd.lights\<close>) and of a camera record (module \<^verbatim>\<open>mujoco.usd.camera\<close>), not among
  the sources. A sphere light's update writes position, intensity and colour at a time
  sample; a dome light's update has no position and no time sample, it sets the
  attributes' default values.
\<close>

definition light_update ::
  "usd_stage \<Rightarrow> nat \<Rightarrow> vec3 \<Rightarrow> int \<Rightarrow> vec3 \<Rightarrow> int \<Rightarrow> error + usd_stage" where
  "light_update st h p intensity color frame =
     (if h < length (lights st)
      then Inr (st\<lparr>lights :=
                  (lights st)[h := (lights st ! h)
                     \<lparr>light_samples :=
                        (light_samples (lights st ! h))(frame \<mapsto> (p, intensity, color))\<rparr>]\<rparr>)
      else Inl ExpiredPrim)"

definition dome_light_update :: "usd_stage \<Rightarrow> nat \<Rightarrow> int \<Rightarrow> vec3 \<Rightarrow> error + usd_stage" where
  "dome_light_update st h intensity color =
     (if h < length (lights st)
      then Inr (st\<lparr>lights :=
                  (lights st)[h := (lights st ! h)\<lparr>light_default := Some (intensity, color)\<rparr>]\<rparr>)
      else Inl ExpiredPrim)"

definition camera_update :: "usd_stage \<Rightarrow> nat \<Rightarrow> vec3 \<Rightarrow> mat3 \<Rightarrow> int \<Rightarrow> error + usd_stage" where
  "camera_update st h p m frame =
     (if h < length (cameras st)
      then Inr (st\<lparr>cameras :=
                  (cameras st)[h := (cameras st ! h)
                     \<lparr>camera_samples := (camera_samples (cameras st ! h))(frame \<mapsto> (p, m))\<rparr>]\<rparr>)
      else Inl ExpiredPrim)"

subsection \<open>The collaborators and the exporter's state\<close>

text \<open>
  The functions of the \<^verbatim>\<open>mujoco\<close> library the exporter calls are parameters:
  \<open>renderer_update_scene data option camera\<close> is the snapshot
  \<^verbatim>\<open>renderer.update_scene(data, scene_option, camera)\<close> leaves in \<^verbatim>\<open>renderer.scene\<close>
  (\<open>camera = None\<close> for the default camera), or the exception it raises;
  \<open>mjv_averageCamera\<close> averages the two cameras of a snapshot; \<open>euler2mat\<close> is
  \<^verbatim>\<open>mju_euler2Quat\<close> followed by \<^verbatim>\<open>mju_quat2Mat\<close>; \<open>renderer_scene0\<close> is the scene of a
  new renderer; \<open>default_option\<close> is \<^verbatim>\<open>mujoco.MjvOption()\<close>; \<open>lvf_initial\<close> is the
  value \<^verbatim>\<open>last_visible_frame\<close> has in a new geometry record.
\<close>

record ('d, 'o) collab =
  renderer_update_scene :: "'d \<Rightarrow> 'o \<Rightarrow> string option \<Rightarrow> error + mjvScene"
  renderer_scene0 :: mjvScene
  default_option :: 'o
  mjv_averageCamera :: "mjvGLCamera \<Rightarrow> mjvGLCamera \<Rightarrow> mjvGLCamera"
  euler2mat :: "vec3 \<Rightarrow> mat3"
  lvf_initial :: int

record 'o exporter =
  model :: mjModel
  height :: int
  width :: int
  max_geom :: int
  output_directory_name :: string
  output_directory_root :: string
  light_intensity :: int
  camera_names :: "string list option"
  specialized_materials_file :: "string option"
  verbose :: bool
  frame_count :: int
  updates :: int
  geom_names :: "string set"
  geom_refs :: "(string \<times> nat) list"
  usd_lights :: "nat option list"
  usd_cameras :: "nat list"
  scene :: mjvScene
  stage :: usd_stage
  scene_option_default :: 'o
  texture_files :: "string list"

subsection \<open>Construction\<close>

text \<open>\<^verbatim>\<open>Usd.Stage.CreateInMemory()\<close>: a stage with nothing authored.\<close>

definition CreateInMemory :: usd_stage where
  "CreateInMemory =
     \<lparr>up_axis = None, start_time_code = None, end_time_code = None,
      time_codes_per_second = None, default_prim = None,
      objects = [], lights = [], cameras = []\<rparr>"

definition initialize_usd_stage :: "'o exporter \<Rightarrow> 'o exporter" where
  "initialize_usd_stage s =
     s\<lparr>stage := CreateInMemory
          \<lparr>up_axis := Some ''Z'', start_time_code := Some 0,
           time_codes_per_second := Some 60, default_prim := Some ''/World''\<rparr>\<rparr>"

text \<open>
  \<^verbatim>\<open>_load_textures\<close>: texture \<open>i\<close> takes \<open>nchannel * height * width\<close> bytes of
  \<open>tex_data\<close> from the running address, and \<^verbatim>\<open>reshape(height, width, 3)\<close> raises unless
  the slice has \<open>height * width * 3\<close> elements. The path stored is
  \<^verbatim>\<open>os.path.relpath(assets_directory, frames_directory)\<close>, which is \<^verbatim>\<open>../assets\<close> for the
  two sibling directories, joined with the file name.
\<close>

definition list_get :: "'a list \<Rightarrow> nat \<Rightarrow> error + 'a" where
  "list_get xs i = (if i < length xs then Inr (xs ! i) else Inl IndexError)"

fun load_textures_loop ::
  "mjModel \<Rightarrow> nat \<Rightarrow> nat \<Rightarrow> nat \<Rightarrow> string list \<Rightarrow> error + string list" where
  "load_textures_loop m 0 texture_id data_adr files = Inr files"
| "load_textures_loop m (Suc k) texture_id data_adr files =
     (case list_get (tex_height m) texture_id of Inl e \<Rightarrow> Inl e
      | Inr texture_height \<Rightarrow>
     (case list_get (tex_width m) texture_id of Inl e \<Rightarrow> Inl e
      | Inr texture_width \<Rightarrow>
     (case list_get (tex_nchannel m) texture_id of Inl e \<Rightarrow> Inl e
      | Inr texture_nchannel \<Rightarrow>
        let pixels = texture_nchannel * texture_height * texture_width;
            slice = take pixels (drop data_adr (tex_data m))
        in if length slice \<noteq> texture_height * texture_width * 3
           then Inl (ValueError (ReshapeSize (length slice) (texture_height * texture_width * 3)))
           else load_textures_loop m k (texture_id + 1) (data_adr + pixels)
                  (files @ [''../assets'' @ ''/'' @ ''texture_'' @ str_nat texture_id @ ''.png'']))))"

definition load_textures :: "'o exporter \<Rightarrow> error + 'o exporter" where
  "load_textures s =
     (case load_textures_loop (model s) (ntex (model s)) 0 0 [] of
        Inl e \<Rightarrow> Inl e
      | Inr files \<Rightarrow> Inr (s\<lparr>texture_files := files\<rparr>))"

text \<open>The arguments of \<^verbatim>\<open>__init__\<close> after the model, and their default values.\<close>

record init_args =
  arg_height :: int
  arg_width :: int
  arg_max_geom :: int
  arg_output_directory_name :: string
  arg_output_directory_root :: string
  arg_light_intensity :: int
  arg_camera_names :: "string list option"
  arg_specialized_materials_file :: "string option"
  arg_verbose :: bool

definition default_args :: init_args where
  "default_args =
     \<lparr>arg_height = 480, arg_width = 480, arg_max_geom = 10000,
      arg_output_directory_name = ''mujoco_usdpkg'', arg_output_directory_root = ''./'',
      arg_light_intensity = 10000, arg_camera_names = None,
      arg_specialized_materials_file = None, arg_verbose = True\<rparr>"

definition init :: "('d, 'o) collab \<Rightarrow> mjModel \<Rightarrow> init_args \<Rightarrow> error + 'o exporter" where
  "init c m a =
     (let buffer_width = offwidth m; buffer_height = offheight m in
      if arg_width a > buffer_width
      then Inl (ValueError (ImageWidthExceeds (arg_width a) buffer_width))
      else if arg_height a > buffer_height
      then Inl (ValueError (ImageHeightExceeds (arg_height a) buffer_height))
      else load_textures (initialize_usd_stage
        \<lparr>model = m, height = arg_height a, width = arg_width a, max_geom = arg_max_geom a,
         output_directory_name = arg_output_directory_name a,
         output_directory_root = arg_output_directory_root a,
         light_intensity = arg_light_intensity a, camera_names = arg_camera_names a,
         specialized_materials_file = arg_specialized_materials_file a,
         verbose = arg_verbose a, frame_count = 0, updates = 0,
         geom_names = {}, geom_refs = [], usd_lights = [], usd_cameras = [],
         scene = renderer_scene0 c, stage = CreateInMemory,
         scene_option_default = default_option c, texture_files = []\<rparr>))"


subsection \<open>Geometry\<close>

definition get_geom_name :: "mjModel \<Rightarrow> mjvGeom \<Rightarrow> string" where
  "get_geom_name m geom =
     (let geom_name =
            (case mj_id2name m (geom_objtype geom) (geom_objid geom) of
               None \<Rightarrow> ''None''
             | Some n \<Rightarrow> if n = [] then ''None'' else n);
          geom_name = geom_name @ ''_id'' @ str_int (geom_objid geom)
      in if geom_objtype geom = mjOBJ_GEOM then geom_name @ ''_geom''
         else if geom_objtype geom = mjOBJ_TENDON
         then geom_name @ ''_tendon_segid'' @ str_int (geom_segid geom)
         else geom_name)"

fun geom_textures_loop ::
  "string list \<Rightarrow> int list \<Rightarrow> int list \<Rightarrow> error + (string \<times> int) option list" where
  "geom_textures_loop files types [] = Inr []"
| "geom_textures_loop files types (i # rest) =
     (case (if i \<noteq> - 1
            then (case py_index files i of Inl e \<Rightarrow> Inl e
                  | Inr f \<Rightarrow>
                      (case py_index types i of Inl e \<Rightarrow> Inl e
                       | Inr t \<Rightarrow> Inr (Some (f, t))))
            else Inr None) of
        Inl e \<Rightarrow> Inl e
      | Inr x \<Rightarrow>
          (case geom_textures_loop files types rest of Inl e \<Rightarrow> Inl e
           | Inr xs \<Rightarrow> Inr (x # xs)))"

definition load_geom :: "('d, 'o) collab \<Rightarrow> 'o exporter \<Rightarrow> mjvGeom \<Rightarrow> error + 'o exporter" where
  "load_geom c s geom =
     (let geom_name = get_geom_name (model s) geom in
      if geom_name \<in> geom_names s then Inl AssertionError
      else
        case (if geom_matid geom = - 1 then Inr []
              else (case py_index (mat_texid (model s)) (geom_matid geom) of Inl e \<Rightarrow> Inl e
                    | Inr ids \<Rightarrow>
                        geom_textures_loop (texture_files s) (tex_type (model s)) ids)) of
          Inl e \<Rightarrow> Inl e
        | Inr geom_textures \<Rightarrow>
            (case (if geom_type geom = mjGEOM_MESH
                   then (case py_index (geom_dataid (model s)) (geom_objid geom) of
                           Inl e \<Rightarrow> Inl e
                         | Inr dataid \<Rightarrow> Inr (USDMesh dataid))
                   else if geom_objtype geom = mjOBJ_TENDON
                   then Inr (USDTendon
                          (mesh_config_generator geom_name (geom_type geom) (1, 1, 1) True))
                   else Inr (USDPrimitiveMesh
                          (mesh_config_generator geom_name (geom_type geom)
                             (geom_size geom) False))) of
               Inl e \<Rightarrow> Inl e
             | Inr kind \<Rightarrow>
                 (case define_object (stage s)
                         (new_object (lvf_initial c) kind geom_name (geom_rgba geom)
                            geom_textures) of
                    (usd_geom, st) \<Rightarrow>
                      Inr (s\<lparr>stage := st,
                             geom_names := insert geom_name (geom_names s),
                             geom_refs := AList.update geom_name usd_geom (geom_refs s)\<rparr>))))"

text \<open>\<^verbatim>\<open>geom.rgba[3]\<close>.\<close>

definition alpha :: "mjvGeom \<Rightarrow> real" where
  "alpha geom = snd (snd (snd (geom_rgba geom)))"

text \<open>One pass of the loop of \<^verbatim>\<open>_update_geoms\<close>.\<close>

definition update_geom :: "('d, 'o) collab \<Rightarrow> 'o exporter \<Rightarrow> mjvGeom \<Rightarrow> error + 'o exporter" where
  "update_geom c s geom =
     (let geom_name = get_geom_name (model s) geom in
      case (if geom_name \<notin> geom_names s then load_geom c s geom else Inr s) of
        Inl e \<Rightarrow> Inl e
      | Inr s1 \<Rightarrow>
          (case map_of (geom_refs s1) geom_name of
             None \<Rightarrow> Inl KeyError
           | Some usd_geom \<Rightarrow>
               (case object_update (stage s1) usd_geom (geom_pos geom) (geom_mat geom)
                       (if geom_objtype geom = mjOBJ_TENDON then Some (geom_size geom)
                        else None)
                       (alpha geom > 0) (updates s1) of
                  Inl e \<Rightarrow> Inl e
                | Inr st \<Rightarrow> Inr (s1\<lparr>stage := st\<rparr>))))"

fun update_geoms_loop ::
  "('d, 'o) collab \<Rightarrow> 'o exporter \<Rightarrow> mjvGeom list \<Rightarrow> error + 'o exporter" where
  "update_geoms_loop c s [] = Inr s"
| "update_geoms_loop c s (geom # rest) =
     (case update_geom c s geom of Inl e \<Rightarrow> Inl e
      | Inr s1 \<Rightarrow> update_geoms_loop c s1 rest)"

definition update_geoms :: "('d, 'o) collab \<Rightarrow> 'o exporter \<Rightarrow> error + 'o exporter" where
  "update_geoms c s = update_geoms_loop c s (scene_geoms (scene s))"

subsection \<open>Lights and cameras\<close>

text \<open>
  \<^verbatim>\<open>np.allclose(pos, [0, 0, 0])\<close> with numpy's default tolerances: every component \<open>a\<close>
  has \<open>\<bar>a - 0\<bar> \<le> atol + rtol * \<bar>0\<bar>\<close>, with \<open>atol = 1e-8\<close>.
\<close>

definition allclose_origin :: "vec3 \<Rightarrow> bool" where
  "allclose_origin p =
     (case p of (x, y, z) \<Rightarrow>
        \<bar>x\<bar> \<le> 1 / 10 ^ 8 \<and> \<bar>y\<bar> \<le> 1 / 10 ^ 8 \<and> \<bar>z\<bar> \<le> 1 / 10 ^ 8)"

fun load_lights_loop :: "'o exporter \<Rightarrow> nat \<Rightarrow> mjvLight list \<Rightarrow> 'o exporter" where
  "load_lights_loop s i [] = s"
| "load_lights_loop s i (light # rest) =
     (if \<not> allclose_origin (light_pos light)
      then (case define_light (stage s) (new_light USDSphereLight (str_nat i) None) of
              (l, st) \<Rightarrow>
                load_lights_loop (s\<lparr>stage := st, usd_lights := usd_lights s @ [Some l]\<rparr>)
                  (i + 1) rest)
      else load_lights_loop (s\<lparr>usd_lights := usd_lights s @ [None]\<rparr>) (i + 1) rest)"

definition load_lights :: "'o exporter \<Rightarrow> 'o exporter" where
  "load_lights s = load_lights_loop s 0 (scene_lights (scene s))"

fun update_lights_loop :: "'o exporter \<Rightarrow> nat \<Rightarrow> mjvLight list \<Rightarrow> error + 'o exporter" where
  "update_lights_loop s i [] = Inr s"
| "update_lights_loop s i (light # rest) =
     (if allclose_origin (light_pos light) then update_lights_loop s (i + 1) rest
      else if i \<ge> length (usd_lights s) then update_lights_loop s (i + 1) rest
      else case usd_lights s ! i of
             None \<Rightarrow> update_lights_loop s (i + 1) rest
           | Some l \<Rightarrow>
               (case light_update (stage s) l (light_pos light) (light_intensity s)
                       (light_diffuse light) (updates s) of
                  Inl e \<Rightarrow> Inl e
                | Inr st \<Rightarrow> update_lights_loop (s\<lparr>stage := st\<rparr>) (i + 1) rest))"

definition update_lights :: "'o exporter \<Rightarrow> error + 'o exporter" where
  "update_lights s = update_lights_loop s 0 (scene_lights (scene s))"

fun load_cameras_loop :: "'o exporter \<Rightarrow> string list \<Rightarrow> 'o exporter" where
  "load_cameras_loop s [] = s"
| "load_cameras_loop s (name # rest) =
     (case define_camera (stage s) (new_camera name) of
        (cam, st) \<Rightarrow>
          load_cameras_loop (s\<lparr>stage := st, usd_cameras := usd_cameras s @ [cam]\<rparr>) rest)"

definition load_cameras :: "'o exporter \<Rightarrow> 'o exporter" where
  "load_cameras s =
     (case camera_names s of None \<Rightarrow> s | Some names \<Rightarrow> load_cameras_loop s names)"

text \<open>\<^verbatim>\<open>np.cross\<close>, and the matrix whose columns are the three given vectors.\<close>

definition cross :: "vec3 \<Rightarrow> vec3 \<Rightarrow> vec3" where
  "cross a b =
     (case a of (a1, a2, a3) \<Rightarrow> case b of (b1, b2, b3) \<Rightarrow>
        (a2 * b3 - a3 * b2, a3 * b1 - a1 * b3, a1 * b2 - a2 * b1))"

definition columns :: "vec3 \<Rightarrow> vec3 \<Rightarrow> vec3 \<Rightarrow> mat3" where
  "columns u v w =
     (case u of (u1, u2, u3) \<Rightarrow> case v of (v1, v2, v3) \<Rightarrow> case w of (w1, w2, w3) \<Rightarrow>
        ((u1, v1, w1), (u2, v2, w2), (u3, v3, w3)))"

definition neg :: "vec3 \<Rightarrow> vec3" where
  "neg a = (case a of (a1, a2, a3) \<Rightarrow> (- a1, - a2, - a3))"

fun update_cameras_loop ::
  "('d, 'o) collab \<Rightarrow> 'd \<Rightarrow> 'o \<Rightarrow> 'o exporter \<Rightarrow> nat \<Rightarrow> nat list \<Rightarrow> error + 'o exporter" where
  "update_cameras_loop c data scene_option s i [] = Inr s"
| "update_cameras_loop c data scene_option s i (camera # rest) =
     (case camera_names s of
        None \<Rightarrow> Inl TypeError
      | Some names \<Rightarrow>
          (case list_get names i of Inl e \<Rightarrow> Inl e
           | Inr camera_name \<Rightarrow>
               (case renderer_update_scene c data scene_option (Some camera_name) of
                  Inl e \<Rightarrow> Inl e
                | Inr sc \<Rightarrow>
                    let avg_camera =
                          mjv_averageCamera c (fst (scene_camera sc)) (snd (scene_camera sc));
                        forward = cam_forward avg_camera;
                        up = cam_up avg_camera;
                        right = cross forward up;
                        rotation = columns right up (neg forward)
                    in case camera_update (stage s) camera (cam_pos avg_camera) rotation
                              (updates s) of
                         Inl e \<Rightarrow> Inl e
                       | Inr st \<Rightarrow>
                           update_cameras_loop c data scene_option
                             (s\<lparr>scene := sc, stage := st\<rparr>) (i + 1) rest)))"

definition update_cameras ::
  "('d, 'o) collab \<Rightarrow> 'o exporter \<Rightarrow> 'd \<Rightarrow> 'o \<Rightarrow> error + 'o exporter" where
  "update_cameras c s data scene_option =
     update_cameras_loop c data scene_option s 0 (usd_cameras s)"

subsection \<open>The public methods\<close>

definition update_scene ::
  "('d, 'o) collab \<Rightarrow> 'o exporter \<Rightarrow> 'd \<Rightarrow> 'o option \<Rightarrow> error + 'o exporter" where
  "update_scene c s data scene_option =
     (let s1 = s\<lparr>frame_count := frame_count s + 1\<rparr>;
          opt = (case scene_option of None \<Rightarrow> scene_option_default s1 | Some opt \<Rightarrow> opt)
      in case renderer_update_scene c data opt None of
           Inl e \<Rightarrow> Inl e
         | Inr sc \<Rightarrow>
             let s2 = s1\<lparr>scene := sc\<rparr>;
                 s3 = (if updates s2 = 0
                       then load_cameras (load_lights (initialize_usd_stage s2))
                       else s2)
             in case update_geoms c s3 of
                  Inl e \<Rightarrow> Inl e
                | Inr s4 \<Rightarrow>
                    (case update_lights s4 of
                       Inl e \<Rightarrow> Inl e
                     | Inr s5 \<Rightarrow>
                         (case update_cameras c s5 data opt of
                            Inl e \<Rightarrow> Inl e
                          | Inr s6 \<Rightarrow> Inr (s6\<lparr>updates := updates s6 + 1\<rparr>))))"

definition add_light ::
  "'o exporter \<Rightarrow> vec3 \<Rightarrow> int \<Rightarrow> real option \<Rightarrow> vec3 \<Rightarrow> string \<Rightarrow> string \<Rightarrow> error + 'o exporter" where
  "add_light s p intensity radius color name light_type =
     (if light_type = ''sphere''
      then (case define_light (stage s) (new_light USDSphereLight name radius) of
              (l, st) \<Rightarrow>
                (case light_update st l p intensity color 0 of
                   Inl e \<Rightarrow> Inl e
                 | Inr st1 \<Rightarrow> Inr (s\<lparr>stage := st1\<rparr>)))
      else if light_type = ''dome''
      then (case define_light (stage s) (new_light USDDomeLight name None) of
              (l, st) \<Rightarrow>
                (case dome_light_update st l intensity color of
                   Inl e \<Rightarrow> Inl e
                 | Inr st1 \<Rightarrow> Inr (s\<lparr>stage := st1\<rparr>)))
      else Inr s)"

definition add_camera ::
  "('d, 'o) collab \<Rightarrow> 'o exporter \<Rightarrow> vec3 \<Rightarrow> vec3 \<Rightarrow> string \<Rightarrow> error + 'o exporter" where
  "add_camera c s p rotation_xyz name =
     (case define_camera (stage s) (new_camera name) of
        (cam, st) \<Rightarrow>
          (case camera_update st cam p (euler2mat c rotation_xyz) 0 of
             Inl e \<Rightarrow> Inl e
           | Inr st1 \<Rightarrow> Inr (s\<lparr>stage := st1\<rparr>)))"

text \<open>
  The loop of \<^verbatim>\<open>save_scene\<close> over \<^verbatim>\<open>geom_refs.items()\<close>, and the file
  \<^verbatim>\<open>stage.Export\<close> writes: its path and the document.
\<close>

fun finalize_visibility :: "usd_stage \<Rightarrow> (string \<times> nat) list \<Rightarrow> error + usd_stage" where
  "finalize_visibility st [] = Inr st"
| "finalize_visibility st ((name, geom_ref) # rest) =
     (if geom_ref < length (objects st)
      then (case update_visibility st geom_ref False
                   (last_visible_frame (objects st ! geom_ref) + 1) of
              Inl e \<Rightarrow> Inl e
            | Inr st1 \<Rightarrow> finalize_visibility st1 rest)
      else Inl ExpiredPrim)"

record usd_file =
  file_path :: string
  file_document :: usd_stage

definition save_scene :: "'o exporter \<Rightarrow> string \<Rightarrow> error + 'o exporter \<times> usd_file" where
  "save_scene s filetype =
     (if filetype \<notin> set [''usd'', ''usda'', ''usdc''] then Inl AssertionError
      else
        let st = (stage s)\<lparr>end_time_code := Some (frame_count s)\<rparr> in
        case finalize_visibility st (geom_refs s) of
          Inl e \<Rightarrow> Inl e
        | Inr st1 \<Rightarrow>
            Inr (s\<lparr>stage := st1\<rparr>,
                 \<lparr>file_path =
                    output_directory_root s @ ''/'' @ output_directory_name s @ ''/''
                    @ ''frames/frame_'' @ str_int (frame_count s) @ ''.'' @ filetype,
                  file_document = st1\<rparr>))"

subsection \<open>Sessions\<close>

text \<open>
  A session is the list of calls made on one exporter, in order; it stops at the first
  call that raises.
\<close>

datatype ('d, 'o) call =
    UpdateScene 'd "'o option"
  | AddLight vec3 int "real option" vec3 string string
  | AddCamera vec3 vec3 string
  | SaveScene string

fun exec :: "('d, 'o) collab \<Rightarrow> 'o exporter \<Rightarrow> ('d, 'o) call \<Rightarrow> error + 'o exporter" where
  "exec c s (UpdateScene data scene_option) = update_scene c s data scene_option"
| "exec c s (AddLight p intensity radius color name light_type) =
     add_light s p intensity radius color name light_type"
| "exec c s (AddCamera p rotation_xyz name) = add_camera c s p rotation_xyz name"
| "exec c s (SaveScene filetype) =
     (case save_scene s filetype of Inl e \<Rightarrow> Inl e | Inr (s1, f) \<Rightarrow> Inr s1)"

fun run :: "('d, 'o) collab \<Rightarrow> 'o exporter \<Rightarrow> ('d, 'o) call list \<Rightarrow> error + 'o exporter" where
  "run c s [] = Inr s"
| "run c s (x # xs) = (case exec c s x of Inl e \<Rightarrow> Inl e | Inr s1 \<Rightarrow> run c s1 xs)"

text \<open>The session that calls \<^verbatim>\<open>update_scene\<close> once for every element of the list.\<close>

definition run_updates ::
  "('d, 'o) collab \<Rightarrow> 'o exporter \<Rightarrow> ('d \<times> 'o option) list \<Rightarrow> error + 'o exporter" where
  "run_updates c s ds = run c s (map (\<lambda>(data, scene_option). UpdateScene data scene_option) ds)"

text \<open>How many calls of a session are calls of \<^verbatim>\<open>update_scene\<close>.\<close>

fun is_update :: "('d, 'o) call \<Rightarrow> bool" where
  "is_update (UpdateScene data scene_option) = True"
| "is_update _ = False"

definition count_updates :: "('d, 'o) call list \<Rightarrow> nat" where
  "count_updates xs = length (filter is_update xs)"

text \<open>
  The snapshot \<^verbatim>\<open>update_scene\<close> reads for its arguments: what the renderer computes for
  the data and the option (the stored default when none is given), default camera.
\<close>

definition snapshot ::
  "('d, 'o) collab \<Rightarrow> 'o exporter \<Rightarrow> 'd \<Rightarrow> 'o option \<Rightarrow> error + mjvScene" where
  "snapshot c s data scene_option =
     renderer_update_scene c data
       (case scene_option of None \<Rightarrow> scene_option_default s | Some opt \<Rightarrow> opt) None"

text \<open>
  The exporter as \<^verbatim>\<open>update_scene\<close> passes it to \<^verbatim>\<open>_update_geoms\<close>, for the snapshot
  \<open>sc\<close>: the frame counter incremented, and on the first call the stage, the lights and
  the cameras set up.
\<close>

definition begin_update :: "'o exporter \<Rightarrow> mjvScene \<Rightarrow> 'o exporter" where
  "begin_update s sc =
     (if updates s = 0
      then load_cameras (load_lights (initialize_usd_stage
             (s\<lparr>frame_count := frame_count s + 1, scene := sc\<rparr>)))
      else s\<lparr>frame_count := frame_count s + 1, scene := sc\<rparr>)"

text \<open>The record \<^verbatim>\<open>geom_refs[name]\<close> refers to, read from the stage.\<close>

definition geom_record :: "'o exporter \<Rightarrow> string \<Rightarrow> usd_object option" where
  "geom_record s name =
     (case map_of (geom_refs s) name of
        None \<Rightarrow> None
      | Some h \<Rightarrow> if h < length (objects (stage s)) then Some (objects (stage s) ! h) else None)"

text \<open>The light record slot \<open>i\<close> of \<^verbatim>\<open>usd_lights\<close> refers to, if it holds one.\<close>

definition light_record :: "'o exporter \<Rightarrow> nat \<Rightarrow> usd_light option" where
  "light_record s i =
     (if i < length (usd_lights s)
      then (case usd_lights s ! i of
              None \<Rightarrow> None
            | Some h \<Rightarrow> if h < length (lights (stage s)) then Some (lights (stage s) ! h) else None)
      else None)"

definition camera_record :: "'o exporter \<Rightarrow> nat \<Rightarrow> usd_camera option" where
  "camera_record s i =
     (if i < length (usd_cameras s) \<and> usd_cameras s ! i < length (cameras (stage s))
      then Some (cameras (stage s) ! (usd_cameras s ! i)) else None)"

text \<open>
  A name in a snapshot: some instance derives it and every instance that derives it has a
  positive alpha; no instance derives it.
\<close>

definition appears_visible :: "mjModel \<Rightarrow> string \<Rightarrow> mjvScene \<Rightarrow> bool" where
  "appears_visible m name sc =
     (list_ex (\<lambda>g. get_geom_name m g = name) (scene_geoms sc) \<and>
      list_all (\<lambda>g. get_geom_name m g = name \<longrightarrow> alpha g > 0) (scene_geoms sc))"

definition absent :: "mjModel \<Rightarrow> string \<Rightarrow> mjvScene \<Rightarrow> bool" where
  "absent m name sc = list_all (\<lambda>g. get_geom_name m g \<noteq> name) (scene_geoms sc)"

subsection \<open>Invariants of a session\<close>

text \<open>
  The names seen are the keys of the record map, every record is a prim of the current
  stage, and no two names share a record.
\<close>

definition inv_geoms :: "'o exporter \<Rightarrow> bool" where
  "inv_geoms s \<longleftrightarrow>
     geom_names s = fst ` set (geom_refs s) \<and>
     distinct (map snd (geom_refs s)) \<and>
     (\<forall>h \<in> snd ` set (geom_refs s). h < length (objects (stage s)))"

text \<open>
  Every light record is one of the \<open>n\<close> light prims of the current stage, and no two
  slots of \<^verbatim>\<open>usd_lights\<close> share one.
\<close>

definition slots_ok :: "nat option list \<Rightarrow> nat \<Rightarrow> bool" where
  "slots_ok slots n \<longleftrightarrow>
     (\<forall>i < length slots. \<forall>h. slots ! i = Some h \<longrightarrow>
        h < n \<and> (\<forall>j < length slots. slots ! j = Some h \<longrightarrow> j = i))"

definition inv_lights :: "'o exporter \<Rightarrow> bool" where
  "inv_lights s \<longleftrightarrow> slots_ok (usd_lights s) (length (lights (stage s)))"

text \<open>
  Between two calls the two counters agree; before the first \<^verbatim>\<open>update_scene\<close> the
  exporter holds no record; the stage starts at time code 0.
\<close>

definition inv_counters :: "'o exporter \<Rightarrow> bool" where
  "inv_counters s \<longleftrightarrow>
     0 \<le> updates s \<and> frame_count s = updates s \<and>
     start_time_code (stage s) = Some 0 \<and>
     (updates s = 0 \<longrightarrow>
        geom_names s = {} \<and> geom_refs s = [] \<and> usd_lights s = [] \<and> usd_cameras s = [])"

definition inv :: "'o exporter \<Rightarrow> bool" where
  "inv s \<longleftrightarrow> inv_geoms s \<and> inv_lights s \<and> inv_counters s"

text \<open>
  A record that has been visible at every time sample from 0 up to, not including, \<open>j\<close>
  and has no other visibility sample.
\<close>

definition visible_until :: "int \<Rightarrow> usd_object \<Rightarrow> bool" where
  "visible_until j ob \<longleftrightarrow>
     (\<forall>t. visibility_samples ob t = (if 0 \<le> t \<and> t < j then Some True else None)) \<and>
     (0 < j \<longrightarrow> last_visible_frame ob = j - 1)"

text \<open>
  No light record of the exporter has a time sample at or after the current value of
  the update counter.
\<close>

definition inv_light_times :: "'o exporter \<Rightarrow> bool" where
  "inv_light_times s \<longleftrightarrow>
     (\<forall>i r. light_record s i = Some r \<longrightarrow> (\<forall>t \<ge> updates s. light_samples r t = None))"

subsection \<open>An example model and scenes\<close>

definition model0 :: mjModel where
  "model0 = \<lparr>offwidth = 640, offheight = 480,
     mj_id2name = (\<lambda>t i. if t = mjOBJ_GEOM \<and> i = 0 then Some ''floor'' else None),
     ntex = 0, tex_height = [], tex_width = [], tex_nchannel = [], tex_data = [],
     tex_type = [], mat_texid = [], geom_dataid = []\<rparr>"

definition camera0 :: mjvGLCamera where
  "camera0 = \<lparr>cam_pos = (0, 0, 1), cam_forward = (1, 0, 0), cam_up = (0, 0, 1)\<rparr>"

definition scene_of :: "mjvGeom list \<Rightarrow> mjvLight list \<Rightarrow> mjvScene" where
  "scene_of gs ls = \<lparr>scene_geoms = gs, scene_lights = ls, scene_camera = (camera0, camera0)\<rparr>"

definition collab0 :: "(mjvScene, unit) collab" where
  "collab0 = \<lparr>renderer_update_scene = (\<lambda>data opt cam. Inr data),
     renderer_scene0 = scene_of [] [], default_option = (),
     mjv_averageCamera = (\<lambda>a b. a), euler2mat = (\<lambda>r. ((1, 0, 0), (0, 1, 0), (0, 0, 1))),
     lvf_initial = - 1\<rparr>"

definition decor :: "real \<Rightarrow> mjvGeom" where
  "decor a = \<lparr>geom_type = mjGEOM_OTHER 6, geom_objtype = mjOBJ_OTHER 0, geom_objid = - 1,
     geom_segid = 0, geom_matid = - 1, geom_rgba = (1, 1, 1, a), geom_pos = (0, 0, 0),
     geom_mat = ((1, 0, 0), (0, 1, 0), (0, 0, 1)), geom_size = (1, 1, 1)\<rparr>"

definition floor_geom :: mjvGeom where
  "floor_geom = \<lparr>geom_type = mjGEOM_OTHER 0, geom_objtype = mjOBJ_GEOM, geom_objid = 0,
     geom_segid = 0, geom_matid = - 1, geom_rgba = (1, 1, 1, 1), geom_pos = (0, 0, 0),
     geom_mat = ((1, 0, 0), (0, 1, 0), (0, 0, 1)), geom_size = (5, 5, 1)\<rparr>"

definition light_at :: "vec3 \<Rightarrow> mjvLight" where
  "light_at p = \<lparr>light_pos = p, light_diffuse = (1, 1, 1)\<rparr>"

definition exporter0 :: "unit exporter" where
  "exporter0 = \<lparr>model = model0, height = 480, width = 480, max_geom = 10000,
     output_directory_name = ''mujoco_usdpkg'', output_directory_root = ''./'',
     light_intensity = 10000, camera_names = None, specialized_materials_file = None,
     verbose = True, frame_count = 0, updates = 0, geom_names = {}, geom_refs = [],
     usd_lights = [], usd_cameras = [], scene = scene_of [] [],
     stage = \<lparr>up_axis = Some ''Z'', start_time_code = Some 0, end_time_code = None,
       time_codes_per_second = Some 60, default_prim = Some ''/World'',
       objects = [], lights = [], cameras = []\<rparr>,
     scene_option_default = (), texture_files = []\<rparr>"

definition scene1 :: mjvScene where
  "scene1 = scene_of [floor_geom, decor 1] [light_at (0, 0, 0), light_at (1, 2, 3)]"

definition scene2 :: mjvScene where
  "scene2 = scene_of [floor_geom] [light_at (0, 0, 0), light_at (0, 0, 0)]"

definition session2 :: "(mjvScene, unit) call list" where
  "session2 = [UpdateScene scene1 None, UpdateScene scene2 None]"

definition dup_scene :: mjvScene where
  "dup_scene = scene_of [decor 1, decor (1 / 2)] []"

definition exporter1 :: "unit exporter" where
  "exporter1 = exporter0
     \<lparr>geom_names := {''None_id-1''}, geom_refs := [(''None_id-1'', 0)],
      stage := (stage exporter0)
        \<lparr>objects := [new_object (- 1)
           (USDPrimitiveMesh (mesh_config_generator ''None_id-1'' (mjGEOM_OTHER 6) (1, 1, 1) False))
           ''None_id-1'' (1, 1, 1, 1) []]\<rparr>\<rparr>"

definition ghost_scene :: mjvScene where
  "ghost_scene = scene_of [floor_geom, decor 0] []"

text \<open>
  What a session of \<^verbatim>\<open>update_scene\<close> calls followed by \<^verbatim>\<open>save_scene\<close> leaves as the
  visibility sample at time \<open>t\<close> of the record of a name: the error of the first call
  that raises, else \<open>None\<close> when the name has no record, else the sample (\<open>None\<close> when
  there is no sample at \<open>t\<close>).
\<close>

definition exported_visibility ::
  "('d, 'o) collab \<Rightarrow> 'o exporter \<Rightarrow> ('d \<times> 'o option) list \<Rightarrow> string \<Rightarrow> string \<Rightarrow> int \<Rightarrow>
     error + bool option option" where
  "exported_visibility c s ds ft name t =
     (case run_updates c s ds of
        Inl e \<Rightarrow> Inl e
      | Inr s1 \<Rightarrow>
          (case save_scene s1 ft of
             Inl e \<Rightarrow> Inl e
           | Inr (s2, f) \<Rightarrow>
               Inr (map_option (\<lambda>ob. visibility_samples ob t) (geom_record s2 name))))"

definition cam_args :: init_args where
  "cam_args = default_args\<lparr>arg_camera_names := Some [''top'']\<rparr>"

definition exporter_cam :: "unit exporter" where
  "exporter_cam = exporter0\<lparr>camera_names := Some [''top'']\<rparr>"

section \<open>Properties\<close>

subsection \<open>Geometry records\<close>

lemma load_geom_Inr:
  assumes "load_geom c s g = Inr s1"
  shows "get_geom_name (model s) g \<notin> geom_names s \<and>
    (\<exists>ob. s1 = s\<lparr>stage := (stage s)\<lparr>objects := objects (stage s) @ [ob]\<rparr>,
                   geom_names := insert (get_geom_name (model s) g) (geom_names s),
                   geom_refs := AList.update (get_geom_name (model s) g)
                                  (length (objects (stage s))) (geom_refs s)\<rparr> \<and>
          xform_samples ob = Map.empty \<and> scale_samples ob = Map.empty \<and>
          visibility_samples ob = Map.empty \<and> last_visible_frame ob = lvf_initial c)"
  using assms
  by (auto simp: load_geom_def Let_def define_object_def new_object_def
      split: if_splits sum.splits)


lemma py_index_Inl: "py_index xs i = Inl e \<Longrightarrow> e = IndexError"
  by (auto simp: py_index_def Let_def split: if_splits)

lemma geom_textures_loop_Inl:
  "geom_textures_loop files types ids = Inl e \<Longrightarrow> e = IndexError"
  by (induction ids arbitrary: e)
     (auto split: if_splits sum.splits dest: py_index_Inl)

lemma load_geom_Inl:
  "load_geom c s g = Inl e \<Longrightarrow>
     e = IndexError \<or> (e = AssertionError \<and> get_geom_name (model s) g \<in> geom_names s)"
  by (auto simp: load_geom_def Let_def define_object_def
      split: if_splits sum.splits dest: py_index_Inl geom_textures_loop_Inl)

lemma update_geom_Inr:
  assumes "update_geom c s g = Inr s2"
  shows "\<exists>s1 h. ((s1 = s \<and> get_geom_name (model s) g \<in> geom_names s) \<or>
                 (load_geom c s g = Inr s1 \<and> get_geom_name (model s) g \<notin> geom_names s)) \<and>
           map_of (geom_refs s1) (get_geom_name (model s) g) = Some h \<and>
           h < length (objects (stage s1)) \<and>
           s2 = s1\<lparr>stage := (stage s1)\<lparr>objects := (objects (stage s1))
                  [h := object_record_update (geom_pos g) (geom_mat g)
                          (if geom_objtype g = mjOBJ_TENDON then Some (geom_size g) else None)
                          (alpha g > 0) (updates s1)
                          (objects (stage s1) ! h)]\<rparr>\<rparr>"
  using assms
  by (auto simp: update_geom_def Let_def object_update_def
      split: if_splits sum.splits option.splits)

lemma update_geom_Inl:
  "update_geom c s g = Inl e \<Longrightarrow> e = IndexError \<or> e = KeyError \<or> e = ExpiredPrim"
  by (auto simp: update_geom_def Let_def object_update_def
      split: if_splits sum.splits option.splits dest: load_geom_Inl)


lemma AList_update_fresh: "k \<notin> fst ` set al \<Longrightarrow> AList.update k v al = al @ [(k, v)]"
  by (induction al) auto

lemma update_geom_frame:
  assumes "update_geom c s g = Inr s'"
  shows "model s' = model s \<and> updates s' = updates s \<and> frame_count s' = frame_count s \<and>
         scene s' = scene s \<and> usd_lights s' = usd_lights s \<and> usd_cameras s' = usd_cameras s \<and>
         camera_names s' = camera_names s \<and> light_intensity s' = light_intensity s \<and>
         scene_option_default s' = scene_option_default s \<and>
         lights (stage s') = lights (stage s) \<and> cameras (stage s') = cameras (stage s) \<and>
         start_time_code (stage s') = start_time_code (stage s) \<and>
         end_time_code (stage s') = end_time_code (stage s)"
  using update_geom_Inr [OF assms] by (auto dest!: load_geom_Inr)

lemma update_geom_inv_geoms:
  assumes "update_geom c s g = Inr s'" and "inv_geoms s"
  shows "inv_geoms s'"
proof -
  from update_geom_Inr [OF assms(1)] obtain s1 h where
    s1: "(s1 = s \<and> get_geom_name (model s) g \<in> geom_names s) \<or>
         (load_geom c s g = Inr s1 \<and> get_geom_name (model s) g \<notin> geom_names s)"
    and s': "geom_names s' = geom_names s1" "geom_refs s' = geom_refs s1"
            "length (objects (stage s')) = length (objects (stage s1))"
    by auto
  have "inv_geoms s1"
  proof (cases "s1 = s")
    case True
    with assms(2) show ?thesis by simp
  next
    case False
    with s1 have l: "load_geom c s g = Inr s1" and
      fresh: "get_geom_name (model s) g \<notin> geom_names s" by auto
    from assms(2) fresh have "get_geom_name (model s) g \<notin> fst ` set (geom_refs s)"
      by (simp add: inv_geoms_def)
    then have refs: "AList.update (get_geom_name (model s) g) (length (objects (stage s)))
                (geom_refs s) = geom_refs s @ [(get_geom_name (model s) g, length (objects (stage s)))]"
      by (rule AList_update_fresh)
    from load_geom_Inr [OF l] refs have
      f: "geom_names s1 = insert (get_geom_name (model s) g) (geom_names s)"
         "geom_refs s1 = geom_refs s @ [(get_geom_name (model s) g, length (objects (stage s)))]"
         "length (objects (stage s1)) = Suc (length (objects (stage s)))"
      by auto
    from assms(2) have
      a: "geom_names s = fst ` set (geom_refs s)" "distinct (map snd (geom_refs s))"
         "\<forall>h \<in> snd ` set (geom_refs s). h < length (objects (stage s))"
      by (simp_all add: inv_geoms_def)
    from a(3) have "length (objects (stage s)) \<notin> snd ` set (geom_refs s)" by blast
    with a f show ?thesis
      unfolding inv_geoms_def by (simp add: less_Suc_eq)
  qed
  with s' show ?thesis by (simp add: inv_geoms_def)
qed



lemma distinct_snd_map_of:
  assumes "distinct (map snd al)" "map_of al k1 = Some h" "map_of al k2 = Some h"
  shows "k1 = k2"
proof -
  from assms(2,3) have "(k1, h) \<in> set al" "(k2, h) \<in> set al"
    by (auto dest: map_of_SomeD)
  moreover from assms(1) have "inj_on snd (set al)" by (simp add: distinct_map)
  ultimately show ?thesis by (fastforce simp: inj_on_def)
qed

lemma inv_geoms_handle:
  "inv_geoms s \<Longrightarrow> map_of (geom_refs s) nm = Some h \<Longrightarrow> h < length (objects (stage s))"
  by (force simp: inv_geoms_def dest: map_of_SomeD)


lemma inv_geoms_record_None:
  assumes "inv_geoms s"
  shows "geom_record s nm = None \<longleftrightarrow> nm \<notin> geom_names s"
proof (cases "map_of (geom_refs s) nm")
  case None
  then have "nm \<notin> fst ` set (geom_refs s)" by (simp add: map_of_eq_None_iff)
  with assms None show ?thesis by (simp add: geom_record_def inv_geoms_def)
next
  case (Some h)
  then have "nm \<in> fst ` set (geom_refs s)" by (force dest: map_of_SomeD)
  with assms Some inv_geoms_handle [OF assms Some] show ?thesis
    by (simp add: geom_record_def inv_geoms_def)
qed

lemma load_geom_record:
  assumes "load_geom c s g = Inr s1" and "inv_geoms s"
  shows "\<exists>ob. xform_samples ob = Map.empty \<and> scale_samples ob = Map.empty \<and>
           visibility_samples ob = Map.empty \<and> last_visible_frame ob = lvf_initial c \<and>
           (\<forall>nm. geom_record s1 nm =
              (if nm = get_geom_name (model s) g then Some ob else geom_record s nm))"
proof -
  from load_geom_Inr [OF assms(1)] obtain ob where
    fresh: "get_geom_name (model s) g \<notin> geom_names s" and
    ob: "xform_samples ob = Map.empty" "scale_samples ob = Map.empty"
        "visibility_samples ob = Map.empty" "last_visible_frame ob = lvf_initial c" and
    f: "geom_refs s1 = AList.update (get_geom_name (model s) g)
                         (length (objects (stage s))) (geom_refs s)"
       "objects (stage s1) = objects (stage s) @ [ob]"
    by auto
  have "geom_record s1 nm =
          (if nm = get_geom_name (model s) g then Some ob else geom_record s nm)" for nm
  proof (cases "nm = get_geom_name (model s) g")
    case True
    with f show ?thesis by (simp add: geom_record_def update_conv')
  next
    case False
    with f have m: "map_of (geom_refs s1) nm = map_of (geom_refs s) nm"
      by (simp add: update_conv')
    show ?thesis
    proof (cases "map_of (geom_refs s) nm")
      case None
      with m False show ?thesis by (simp add: geom_record_def)
    next
      case (Some h)
      with inv_geoms_handle [OF assms(2) Some] m f(2) False show ?thesis
        by (simp add: geom_record_def nth_append)
    qed
  qed
  with ob show ?thesis by blast
qed


lemma update_geom_decomp:
  assumes "update_geom c s g = Inr s'"
  obtains s1 h where
    "(s1 = s \<and> get_geom_name (model s) g \<in> geom_names s) \<or>
     (load_geom c s g = Inr s1 \<and> get_geom_name (model s) g \<notin> geom_names s)"
    "map_of (geom_refs s1) (get_geom_name (model s) g) = Some h"
    "h < length (objects (stage s1))"
    "geom_refs s' = geom_refs s1"
    "objects (stage s') = (objects (stage s1))
        [h := object_record_update (geom_pos g) (geom_mat g)
                (if geom_objtype g = mjOBJ_TENDON then Some (geom_size g) else None)
                (alpha g > 0) (updates s) (objects (stage s1) ! h)]"
proof -
  from update_geom_Inr [OF assms] obtain s1 h where
    a: "(s1 = s \<and> get_geom_name (model s) g \<in> geom_names s) \<or>
        (load_geom c s g = Inr s1 \<and> get_geom_name (model s) g \<notin> geom_names s)"
       "map_of (geom_refs s1) (get_geom_name (model s) g) = Some h"
       "h < length (objects (stage s1))"
    and b: "s' = s1\<lparr>stage := (stage s1)\<lparr>objects := (objects (stage s1))
                  [h := object_record_update (geom_pos g) (geom_mat g)
                          (if geom_objtype g = mjOBJ_TENDON then Some (geom_size g) else None)
                          (alpha g > 0) (updates s1)
                          (objects (stage s1) ! h)]\<rparr>\<rparr>"
    by blast
  from a(1) have u: "updates s1 = updates s"
    by (auto dest!: load_geom_Inr)
  from b have "geom_refs s' = geom_refs s1" by simp
  moreover from b u have "objects (stage s') = (objects (stage s1))
        [h := object_record_update (geom_pos g) (geom_mat g)
                (if geom_objtype g = mjOBJ_TENDON then Some (geom_size g) else None)
                (alpha g > 0) (updates s) (objects (stage s1) ! h)]" by simp
  ultimately show ?thesis using a that by blast
qed


lemma update_geom_s1_inv:
  assumes "(s1 = s \<and> get_geom_name (model s) g \<in> geom_names s) \<or>
     (load_geom c s g = Inr s1 \<and> get_geom_name (model s) g \<notin> geom_names s)"
    and "update_geom c s g = Inr s'" and "inv_geoms s"
  shows "inv_geoms s1"
proof -
  from update_geom_inv_geoms [OF assms(2,3)] have i': "inv_geoms s'" .
  from update_geom_decomp [OF assms(2)] obtain s1' h where
    a: "(s1' = s \<and> get_geom_name (model s) g \<in> geom_names s) \<or>
     (load_geom c s g = Inr s1' \<and> get_geom_name (model s) g \<notin> geom_names s)"
    and r: "geom_refs s' = geom_refs s1'"
    and o: "objects (stage s') = (objects (stage s1'))
        [h := object_record_update (geom_pos g) (geom_mat g)
                (if geom_objtype g = mjOBJ_TENDON then Some (geom_size g) else None)
                (alpha g > 0) (updates s) (objects (stage s1') ! h)]"
    by blast
  from a assms(1) have e: "s1' = s1" by auto
  from update_geom_Inr [OF assms(2)] a have n: "geom_names s' = geom_names s1'"
    by auto
  from o have "length (objects (stage s')) = length (objects (stage s1'))" by simp
  with i' r n e show ?thesis by (simp add: inv_geoms_def)
qed

lemma update_geom_record:
  assumes "update_geom c s g = Inr s'" and "inv_geoms s"
  shows "\<exists>ob. (geom_record s (get_geom_name (model s) g) = Some ob \<or>
               (geom_record s (get_geom_name (model s) g) = None \<and>
                xform_samples ob = Map.empty \<and> scale_samples ob = Map.empty \<and>
                visibility_samples ob = Map.empty \<and> last_visible_frame ob = lvf_initial c)) \<and>
          (\<forall>nm. geom_record s' nm =
             (if nm = get_geom_name (model s) g
              then Some (object_record_update (geom_pos g) (geom_mat g)
                (if geom_objtype g = mjOBJ_TENDON then Some (geom_size g) else None)
                (alpha g > 0) (updates s) ob)
              else geom_record s nm))"
proof -
  let ?n = "get_geom_name (model s) g"
  let ?u = "object_record_update (geom_pos g) (geom_mat g)
                (if geom_objtype g = mjOBJ_TENDON then Some (geom_size g) else None)
                (alpha g > 0) (updates s)"
  from update_geom_decomp [OF assms(1)] obtain s1 h where
    a: "(s1 = s \<and> ?n \<in> geom_names s) \<or> (load_geom c s g = Inr s1 \<and> ?n \<notin> geom_names s)"
    and h: "map_of (geom_refs s1) ?n = Some h" "h < length (objects (stage s1))"
    and r: "geom_refs s' = geom_refs s1"
    and o: "objects (stage s') = (objects (stage s1))[h := ?u (objects (stage s1) ! h)]"
    by blast
  from update_geom_s1_inv [OF a assms] have i1: "inv_geoms s1" .
  then have d: "distinct (map snd (geom_refs s1))" by (simp add: inv_geoms_def)
  have step: "geom_record s' nm =
      (if nm = ?n then Some (?u (objects (stage s1) ! h)) else geom_record s1 nm)" for nm
  proof (cases "nm = ?n")
    case True
    with h r o show ?thesis by (simp add: geom_record_def)
  next
    case False
    show ?thesis
    proof (cases "map_of (geom_refs s1) nm")
      case None
      with r False show ?thesis by (simp add: geom_record_def)
    next
      case (Some h')
      with distinct_snd_map_of [OF d Some, of ?n] h(1) False have "h' \<noteq> h" by auto
      with Some r o False show ?thesis by (simp add: geom_record_def)
    qed
  qed
  from h have g1: "geom_record s1 ?n = Some (objects (stage s1) ! h)"
    by (simp add: geom_record_def)
  from a show ?thesis
  proof
    assume "s1 = s \<and> ?n \<in> geom_names s"
    with g1 step show ?thesis by auto
  next
    assume l: "load_geom c s g = Inr s1 \<and> ?n \<notin> geom_names s"
    with load_geom_record [of c s g s1] assms(2) obtain ob where
      ob: "xform_samples ob = Map.empty" "scale_samples ob = Map.empty"
          "visibility_samples ob = Map.empty" "last_visible_frame ob = lvf_initial c"
      and rec: "\<And>nm. geom_record s1 nm = (if nm = ?n then Some ob else geom_record s nm)"
      by blast
    from rec [of ?n] g1 have e: "objects (stage s1) ! h = ob" by simp
    from l assms(2) have "geom_record s ?n = None" by (simp add: inv_geoms_record_None)
    with ob e step rec show ?thesis by auto
  qed
qed


lemma update_geoms_loop_frame:
  "update_geoms_loop c s gs = Inr s' \<Longrightarrow>
     model s' = model s \<and> updates s' = updates s \<and> frame_count s' = frame_count s \<and>
     scene s' = scene s \<and> usd_lights s' = usd_lights s \<and> usd_cameras s' = usd_cameras s \<and>
     camera_names s' = camera_names s \<and> light_intensity s' = light_intensity s \<and>
     scene_option_default s' = scene_option_default s \<and>
     lights (stage s') = lights (stage s) \<and> cameras (stage s') = cameras (stage s) \<and>
     start_time_code (stage s') = start_time_code (stage s) \<and>
     end_time_code (stage s') = end_time_code (stage s)"
proof (induction gs arbitrary: s)
  case Nil
  then show ?case by simp
next
  case (Cons g gs)
  from Cons.prems obtain s1 where
    1: "update_geom c s g = Inr s1" and 2: "update_geoms_loop c s1 gs = Inr s'"
    by (auto split: sum.splits)
  from update_geom_frame [OF 1] Cons.IH [OF 2] show ?case by simp
qed

lemma update_geoms_loop_inv_geoms:
  "update_geoms_loop c s gs = Inr s' \<Longrightarrow> inv_geoms s \<Longrightarrow> inv_geoms s'"
proof (induction gs arbitrary: s)
  case Nil
  then show ?case by simp
next
  case (Cons g gs)
  from Cons.prems obtain s1 where
    1: "update_geom c s g = Inr s1" and 2: "update_geoms_loop c s1 gs = Inr s'"
    by (auto split: sum.splits)
  from update_geom_inv_geoms [OF 1 Cons.prems(2)] Cons.IH [OF 2] show ?case by simp
qed

lemma update_geoms_loop_absent:
  "update_geoms_loop c s gs = Inr s' \<Longrightarrow> inv_geoms s \<Longrightarrow>
   \<forall>g \<in> set gs. get_geom_name (model s) g \<noteq> nm \<Longrightarrow>
   geom_record s' nm = geom_record s nm"
proof (induction gs arbitrary: s)
  case Nil
  then show ?case by simp
next
  case (Cons g gs)
  from Cons.prems obtain s1 where
    1: "update_geom c s g = Inr s1" and 2: "update_geoms_loop c s1 gs = Inr s'"
    by (auto split: sum.splits)
  from update_geom_frame [OF 1] have m: "model s1 = model s" by simp
  from update_geom_record [OF 1 Cons.prems(2)] Cons.prems(3)
  have r: "geom_record s1 nm = geom_record s nm" by auto
  from Cons.IH [OF 2 update_geom_inv_geoms [OF 1 Cons.prems(2)]] Cons.prems(3) m r
  show ?case by simp
qed

lemma visible_until_update:
  assumes "visible_until j ob \<or> visible_until (j + 1) ob" and "0 \<le> j"
  shows "visible_until (j + 1) (object_record_update p m sc True j ob)"
  using assms by (auto simp: visible_until_def object_record_update_def)

lemma visible_until_fresh:
  "visibility_samples ob = Map.empty \<Longrightarrow> visible_until 0 ob"
  by (simp add: visible_until_def)

lemma update_geoms_loop_visible:
  "update_geoms_loop c s gs = Inr s' \<Longrightarrow> inv_geoms s \<Longrightarrow> 0 \<le> updates s \<Longrightarrow>
   \<forall>g \<in> set gs. get_geom_name (model s) g = nm \<longrightarrow> alpha g > 0 \<Longrightarrow>
   (\<exists>g \<in> set gs. get_geom_name (model s) g = nm) \<and>
     (case geom_record s nm of None \<Rightarrow> updates s = 0
      | Some ob \<Rightarrow> visible_until (updates s) ob \<or> visible_until (updates s + 1) ob) \<or>
   (\<exists>ob. geom_record s nm = Some ob \<and> visible_until (updates s + 1) ob) \<Longrightarrow>
   \<exists>ob. geom_record s' nm = Some ob \<and> visible_until (updates s + 1) ob"
proof (induction gs arbitrary: s)
  case Nil
  then show ?case by simp
next
  case (Cons g gs)
  from Cons.prems(1) obtain s1 where
    1: "update_geom c s g = Inr s1" and 2: "update_geoms_loop c s1 gs = Inr s'"
    by (auto split: sum.splits)
  from update_geom_frame [OF 1] have m: "model s1 = model s" "updates s1 = updates s"
    by simp_all
  note i1 = update_geom_inv_geoms [OF 1 Cons.prems(2)]
  from update_geom_record [OF 1 Cons.prems(2)] obtain ob where
    ob: "geom_record s (get_geom_name (model s) g) = Some ob \<or>
         (geom_record s (get_geom_name (model s) g) = None \<and>
          visibility_samples ob = Map.empty)"
    and rec: "\<And>n. geom_record s1 n =
             (if n = get_geom_name (model s) g
              then Some (object_record_update (geom_pos g) (geom_mat g)
                (if geom_objtype g = mjOBJ_TENDON then Some (geom_size g) else None)
                (alpha g > 0) (updates s) ob)
              else geom_record s n)"
    by blast
  have "(\<exists>g \<in> set gs. get_geom_name (model s1) g = nm) \<and>
     (case geom_record s1 nm of None \<Rightarrow> updates s1 = 0
      | Some ob \<Rightarrow> visible_until (updates s1) ob \<or> visible_until (updates s1 + 1) ob) \<or>
   (\<exists>ob. geom_record s1 nm = Some ob \<and> visible_until (updates s1 + 1) ob)"
  proof (cases "get_geom_name (model s) g = nm")
    case False
    with rec [of nm] have "geom_record s1 nm = geom_record s nm" by simp
    with Cons.prems(5) False m show ?thesis by (auto split: option.splits)
  next
    case True
    with Cons.prems(4) have al: "alpha g > 0" by simp
    have "visible_until (updates s) ob \<or> visible_until (updates s + 1) ob"
    proof -
      from ob show ?thesis
      proof
        assume "geom_record s (get_geom_name (model s) g) = Some ob"
        with Cons.prems(5) True show ?thesis by auto
      next
        assume f: "geom_record s (get_geom_name (model s) g) = None \<and>
          visibility_samples ob = Map.empty"
        with Cons.prems(5) True have "updates s = 0" by auto
        with f visible_until_fresh [of ob] show ?thesis by simp
      qed
    qed
    from visible_until_update [OF this Cons.prems(3)] rec [of nm] True al m
    show ?thesis by simp
  qed
  from Cons.IH [OF 2 i1 _ _ this] Cons.prems(3,4) m show ?case by simp
qed


lemma update_lights_loop_frame:
  "update_lights_loop s i ls = Inr s' \<Longrightarrow>
     model s' = model s \<and> updates s' = updates s \<and> frame_count s' = frame_count s \<and>
     scene s' = scene s \<and> usd_lights s' = usd_lights s \<and> usd_cameras s' = usd_cameras s \<and>
     camera_names s' = camera_names s \<and> light_intensity s' = light_intensity s \<and>
     scene_option_default s' = scene_option_default s \<and>
     geom_names s' = geom_names s \<and> geom_refs s' = geom_refs s \<and>
     objects (stage s') = objects (stage s) \<and> cameras (stage s') = cameras (stage s) \<and>
     length (lights (stage s')) = length (lights (stage s)) \<and>
     start_time_code (stage s') = start_time_code (stage s) \<and>
     end_time_code (stage s') = end_time_code (stage s)"
proof (induction ls arbitrary: s i)
  case Nil
  then show ?case by simp
next
  case (Cons l ls)
  show ?case
  proof (cases "allclose_origin (light_pos l) \<or> i \<ge> length (usd_lights s) \<or>
                usd_lights s ! i = None")
    case True
    with Cons.prems have "update_lights_loop s (i + 1) ls = Inr s'"
      by (auto split: if_splits)
    from Cons.IH [OF this] show ?thesis .
  next
    case False
    then obtain h where h: "usd_lights s ! i = Some h" by auto
    with False Cons.prems obtain st where
      1: "light_update (stage s) h (light_pos l) (light_intensity s) (light_diffuse l)
            (updates s) = Inr st"
      and 2: "update_lights_loop (s\<lparr>stage := st\<rparr>) (i + 1) ls = Inr s'"
      by (auto split: sum.splits if_splits)
    from 1 have "objects st = objects (stage s) \<and> cameras st = cameras (stage s) \<and>
       length (lights st) = length (lights (stage s)) \<and>
       start_time_code st = start_time_code (stage s) \<and>
       end_time_code st = end_time_code (stage s)"
      by (auto simp: light_update_def split: if_splits)
    with Cons.IH [OF 2] show ?thesis by simp
  qed
qed

lemma update_cameras_loop_frame:
  "update_cameras_loop c d opt s i cs = Inr s' \<Longrightarrow>
     model s' = model s \<and> updates s' = updates s \<and> frame_count s' = frame_count s \<and>
     usd_lights s' = usd_lights s \<and> usd_cameras s' = usd_cameras s \<and>
     camera_names s' = camera_names s \<and> light_intensity s' = light_intensity s \<and>
     scene_option_default s' = scene_option_default s \<and>
     geom_names s' = geom_names s \<and> geom_refs s' = geom_refs s \<and>
     objects (stage s') = objects (stage s) \<and> lights (stage s') = lights (stage s) \<and>
     length (cameras (stage s')) = length (cameras (stage s)) \<and>
     start_time_code (stage s') = start_time_code (stage s) \<and>
     end_time_code (stage s') = end_time_code (stage s)"
proof (induction cs arbitrary: s i)
  case Nil
  then show ?case by simp
next
  case (Cons cam cs)
  from Cons.prems obtain sc st where
    1: "camera_update (stage s) cam
          (cam_pos (mjv_averageCamera c (fst (scene_camera sc)) (snd (scene_camera sc))))
          (columns
            (cross (cam_forward (mjv_averageCamera c (fst (scene_camera sc)) (snd (scene_camera sc))))
                   (cam_up (mjv_averageCamera c (fst (scene_camera sc)) (snd (scene_camera sc)))))
            (cam_up (mjv_averageCamera c (fst (scene_camera sc)) (snd (scene_camera sc))))
            (neg (cam_forward (mjv_averageCamera c (fst (scene_camera sc)) (snd (scene_camera sc))))))
          (updates s) = Inr st"
    and 2: "update_cameras_loop c d opt (s\<lparr>scene := sc, stage := st\<rparr>) (i + 1) cs = Inr s'"
    by (auto simp: Let_def split: sum.splits option.splits)
  from 1 have "objects st = objects (stage s) \<and> lights st = lights (stage s) \<and>
       length (cameras st) = length (cameras (stage s)) \<and>
       start_time_code st = start_time_code (stage s) \<and>
       end_time_code st = end_time_code (stage s)"
    by (auto simp: camera_update_def split: if_splits)
  with Cons.IH [OF 2] show ?case by simp
qed

lemma load_lights_loop_frame:
  "load_lights_loop s i ls = s' \<Longrightarrow>
     model s' = model s \<and> updates s' = updates s \<and> frame_count s' = frame_count s \<and>
     scene s' = scene s \<and> usd_cameras s' = usd_cameras s \<and>
     camera_names s' = camera_names s \<and> light_intensity s' = light_intensity s \<and>
     scene_option_default s' = scene_option_default s \<and>
     geom_names s' = geom_names s \<and> geom_refs s' = geom_refs s \<and>
     objects (stage s') = objects (stage s) \<and> cameras (stage s') = cameras (stage s) \<and>
     start_time_code (stage s') = start_time_code (stage s) \<and>
     end_time_code (stage s') = end_time_code (stage s)"
proof (induction ls arbitrary: s i)
  case Nil
  then show ?case by simp
next
  case (Cons l ls)
  show ?case
  proof (cases "allclose_origin (light_pos l)")
    case True
    with Cons.prems have "load_lights_loop (s\<lparr>usd_lights := usd_lights s @ [None]\<rparr>) (i + 1) ls = s'"
      by simp
    from Cons.IH [OF this] show ?thesis by simp
  next
    case False
    with Cons.prems have "load_lights_loop
       (s\<lparr>stage := (stage s)\<lparr>lights := lights (stage s) @ [new_light USDSphereLight (str_nat i) None]\<rparr>,
          usd_lights := usd_lights s @ [Some (length (lights (stage s)))]\<rparr>) (i + 1) ls = s'"
      by (simp add: define_light_def)
    from Cons.IH [OF this] show ?thesis by simp
  qed
qed

lemma load_cameras_loop_frame:
  "load_cameras_loop s ns = s' \<Longrightarrow>
     model s' = model s \<and> updates s' = updates s \<and> frame_count s' = frame_count s \<and>
     scene s' = scene s \<and> usd_lights s' = usd_lights s \<and>
     camera_names s' = camera_names s \<and> light_intensity s' = light_intensity s \<and>
     scene_option_default s' = scene_option_default s \<and>
     geom_names s' = geom_names s \<and> geom_refs s' = geom_refs s \<and>
     objects (stage s') = objects (stage s) \<and> lights (stage s') = lights (stage s) \<and>
     start_time_code (stage s') = start_time_code (stage s) \<and>
     end_time_code (stage s') = end_time_code (stage s)"
proof (induction ns arbitrary: s)
  case Nil
  then show ?case by simp
next
  case (Cons n ns)
  from Cons.prems have "load_cameras_loop
       (s\<lparr>stage := (stage s)\<lparr>cameras := cameras (stage s) @ [new_camera n]\<rparr>,
          usd_cameras := usd_cameras s @ [length (cameras (stage s))]\<rparr>) ns = s'"
    by (simp add: define_camera_def)
  from Cons.IH [OF this] show ?case by simp
qed


lemma load_lights_fields:
  "model (load_lights s) = model s" "updates (load_lights s) = updates s"
  "frame_count (load_lights s) = frame_count s" "scene (load_lights s) = scene s"
  "usd_cameras (load_lights s) = usd_cameras s" "camera_names (load_lights s) = camera_names s"
  "light_intensity (load_lights s) = light_intensity s"
  "scene_option_default (load_lights s) = scene_option_default s"
  "geom_names (load_lights s) = geom_names s" "geom_refs (load_lights s) = geom_refs s"
  "objects (stage (load_lights s)) = objects (stage s)"
  "cameras (stage (load_lights s)) = cameras (stage s)"
  "start_time_code (stage (load_lights s)) = start_time_code (stage s)"
  "end_time_code (stage (load_lights s)) = end_time_code (stage s)"
  using load_lights_loop_frame [OF refl, of s 0 "scene_lights (scene s)"]
  by (simp_all add: load_lights_def)

lemma load_cameras_fields:
  "model (load_cameras s) = model s" "updates (load_cameras s) = updates s"
  "frame_count (load_cameras s) = frame_count s" "scene (load_cameras s) = scene s"
  "usd_lights (load_cameras s) = usd_lights s" "camera_names (load_cameras s) = camera_names s"
  "light_intensity (load_cameras s) = light_intensity s"
  "scene_option_default (load_cameras s) = scene_option_default s"
  "geom_names (load_cameras s) = geom_names s" "geom_refs (load_cameras s) = geom_refs s"
  "objects (stage (load_cameras s)) = objects (stage s)"
  "lights (stage (load_cameras s)) = lights (stage s)"
  "start_time_code (stage (load_cameras s)) = start_time_code (stage s)"
  "end_time_code (stage (load_cameras s)) = end_time_code (stage s)"
  using load_cameras_loop_frame [OF refl, of s]
  by (simp_all add: load_cameras_def split: option.splits)

lemma begin_update_fields:
  "model (begin_update s sc) = model s" "updates (begin_update s sc) = updates s"
  "frame_count (begin_update s sc) = frame_count s + 1" "scene (begin_update s sc) = sc"
  "camera_names (begin_update s sc) = camera_names s"
  "light_intensity (begin_update s sc) = light_intensity s"
  "scene_option_default (begin_update s sc) = scene_option_default s"
  "geom_names (begin_update s sc) = geom_names s" "geom_refs (begin_update s sc) = geom_refs s"
  "start_time_code (stage (begin_update s sc)) =
     (if updates s = 0 then Some 0 else start_time_code (stage s))"
  "objects (stage (begin_update s sc)) = (if updates s = 0 then [] else objects (stage s))"
  by (simp_all add: begin_update_def load_lights_fields load_cameras_fields
      initialize_usd_stage_def CreateInMemory_def)

lemma update_scene_decomp:
  assumes "update_scene c s d opt = Inr s'"
  obtains sc s4 s5 s6 where
    "snapshot c s d opt = Inr sc"
    "update_geoms_loop c (begin_update s sc) (scene_geoms sc) = Inr s4"
    "update_lights_loop s4 0 (scene_lights sc) = Inr s5"
    "update_cameras_loop c d (case opt of None \<Rightarrow> scene_option_default s | Some x \<Rightarrow> x)
        s5 0 (usd_cameras s5) = Inr s6"
    "s' = s6\<lparr>updates := updates s6 + 1\<rparr>"
proof -
  let ?o = "case opt of None \<Rightarrow> scene_option_default s | Some x \<Rightarrow> x"
  from assms obtain sc where sc: "renderer_update_scene c d ?o None = Inr sc"
    by (auto simp: update_scene_def Let_def split: sum.splits option.splits)
  have b: "scene (begin_update s sc) = sc" by (simp add: begin_update_fields)
  from assms sc obtain s4 where
    4: "update_geoms c (begin_update s sc) = Inr s4"
    by (auto simp: update_scene_def Let_def begin_update_def split: sum.splits if_splits option.splits)
  with assms sc obtain s5 where 5: "update_lights s4 = Inr s5"
    by (auto simp: update_scene_def Let_def begin_update_def split: sum.splits if_splits option.splits)
  with assms sc 4 obtain s6 where 6: "update_cameras c s5 d ?o = Inr s6"
    and 7: "s' = s6\<lparr>updates := updates s6 + 1\<rparr>"
    by (auto simp: update_scene_def Let_def begin_update_def split: sum.splits if_splits option.splits)
  from 4 b have g4: "update_geoms_loop c (begin_update s sc) (scene_geoms sc) = Inr s4"
    by (simp add: update_geoms_def)
  from update_geoms_loop_frame [OF g4] b have "scene s4 = sc" by simp
  with 5 have g5: "update_lights_loop s4 0 (scene_lights sc) = Inr s5"
    by (simp add: update_lights_def)
  from 6 have g6: "update_cameras_loop c d ?o s5 0 (usd_cameras s5) = Inr s6"
    by (simp add: update_cameras_def)
  from sc have "snapshot c s d opt = Inr sc" by (simp add: snapshot_def)
  from that [OF this g4 g5 g6 7] show ?thesis .
qed


lemma slots_ok_append_None: 
  assumes "slots_ok L n" shows "slots_ok (L @ [None]) n"
  unfolding slots_ok_def
proof (intro allI impI)
  fix i h assume i: "i < length (L @ [None])" and h: "(L @ [None]) ! i = Some h"
  then have iL: "i < length L" and hL: "L ! i = Some h"
    by (auto simp: nth_append split: if_splits)
  with assms have a: "h < n" and b: "\<forall>j < length L. L ! j = Some h \<longrightarrow> j = i"
    unfolding slots_ok_def by blast+
  have "\<forall>j < length (L @ [None]). (L @ [None]) ! j = Some h \<longrightarrow> j = i"
  proof (intro allI impI)
    fix j assume "j < length (L @ [None])" "(L @ [None]) ! j = Some h"
    then have "j < length L \<and> L ! j = Some h" by (auto simp: nth_append split: if_splits)
    with b show "j = i" by blast
  qed
  with a show "h < n \<and> (\<forall>j < length (L @ [None]). (L @ [None]) ! j = Some h \<longrightarrow> j = i)"
    by blast
qed

lemma slots_ok_append_Some:
  assumes "slots_ok L n" shows "slots_ok (L @ [Some n]) (Suc n)"
  unfolding slots_ok_def
proof (intro allI impI)
  fix i h assume i: "i < length (L @ [Some n])" and h: "(L @ [Some n]) ! i = Some h"
  from assms have lt: "\<And>j h'. j < length L \<Longrightarrow> L ! j = Some h' \<Longrightarrow> h' < n"
    unfolding slots_ok_def by blast
  show "h < Suc n \<and> (\<forall>j < length (L @ [Some n]). (L @ [Some n]) ! j = Some h \<longrightarrow> j = i)"
  proof (cases "i < length L")
    case True
    with h have hL: "L ! i = Some h" by (simp add: nth_append)
    with assms True have a: "h < n" and b: "\<forall>j < length L. L ! j = Some h \<longrightarrow> j = i"
      unfolding slots_ok_def by blast+
    have "\<forall>j < length (L @ [Some n]). (L @ [Some n]) ! j = Some h \<longrightarrow> j = i"
    proof (intro allI impI)
      fix j assume j: "j < length (L @ [Some n])" "(L @ [Some n]) ! j = Some h"
      show "j = i"
      proof (cases "j < length L")
        case jt: True
        with j have "L ! j = Some h" by (simp add: nth_append)
        with b jt show ?thesis by blast
      next
        case False
        with j have "h = n" by (simp add: nth_append)
        with a show ?thesis by simp
      qed
    qed
    with a show ?thesis by simp
  next
    case False
    with i have ie: "i = length L" by simp
    with h have hn: "h = n" by simp
    have "\<forall>j < length (L @ [Some n]). (L @ [Some n]) ! j = Some h \<longrightarrow> j = i"
    proof (intro allI impI)
      fix j assume j: "j < length (L @ [Some n])" "(L @ [Some n]) ! j = Some h"
      show "j = i"
      proof (cases "j < length L")
        case jt: True
        with j have "L ! j = Some h" by (simp add: nth_append)
        with lt [OF jt this] hn show ?thesis by simp
      next
        case False
        with j ie show ?thesis by simp
      qed
    qed
    with hn show ?thesis by simp
  qed
qed

lemma load_lights_loop_inv: "inv_lights s \<Longrightarrow> inv_lights (load_lights_loop s i ls)"
proof (induction ls arbitrary: s i)
  case Nil
  then show ?case by simp
next
  case (Cons l ls)
  show ?case
  proof (cases "allclose_origin (light_pos l)")
    case True
    from Cons.prems have "inv_lights (s\<lparr>usd_lights := usd_lights s @ [None]\<rparr>)"
      by (simp add: inv_lights_def slots_ok_append_None)
    from Cons.IH [OF this] True show ?thesis by simp
  next
    case False
    from Cons.prems have "inv_lights
       (s\<lparr>stage := (stage s)\<lparr>lights := lights (stage s) @ [new_light USDSphereLight (str_nat i) None]\<rparr>,
          usd_lights := usd_lights s @ [Some (length (lights (stage s)))]\<rparr>)"
      by (simp add: inv_lights_def slots_ok_append_Some)
    from Cons.IH [OF this] False show ?thesis by (simp add: define_light_def)
  qed
qed

lemma load_lights_loop_slots:
  "\<exists>new. usd_lights (load_lights_loop s i ls) = usd_lights s @ new \<and>
         length new = length ls \<and>
         (\<forall>k < length ls. (new ! k = None) = allclose_origin (light_pos (ls ! k)))"
proof (induction ls arbitrary: s i)
  case Nil
  then show ?case by simp
next
  case (Cons l ls)
  let ?s1 = "if allclose_origin (light_pos l)
     then s\<lparr>usd_lights := usd_lights s @ [None]\<rparr>
     else s\<lparr>stage := (stage s)\<lparr>lights := lights (stage s) @ [new_light USDSphereLight (str_nat i) None]\<rparr>,
          usd_lights := usd_lights s @ [Some (length (lights (stage s)))]\<rparr>"
  let ?x = "if allclose_origin (light_pos l) then None else Some (length (lights (stage s)))"
  have e: "load_lights_loop s i (l # ls) = load_lights_loop ?s1 (i + 1) ls"
    by (simp add: define_light_def)
  have u: "usd_lights ?s1 = usd_lights s @ [?x]" by simp
  from Cons.IH [of ?s1 "i + 1"] obtain new where
    n: "usd_lights (load_lights_loop ?s1 (i + 1) ls) = usd_lights ?s1 @ new"
       "length new = length ls"
       "\<forall>k < length ls. (new ! k = None) = allclose_origin (light_pos (ls ! k))"
    by blast
  have "usd_lights (load_lights_loop s i (l # ls)) = usd_lights s @ (?x # new)"
    using e n(1) u by simp
  moreover have "length (?x # new) = length (l # ls)" using n(2) by simp
  moreover have "\<forall>k < length (l # ls).
      ((?x # new) ! k = None) = allclose_origin (light_pos ((l # ls) ! k))"
    using n(3) by (auto simp: nth_Cons split: nat.splits)
  ultimately show ?case by blast
qed

lemma light_update_record:
  assumes "inv_lights s" and "i < length (usd_lights s)" and "usd_lights s ! i = Some h"
    and "light_update (stage s) h p intensity col t = Inr st"
  shows "inv_lights (s\<lparr>stage := st\<rparr>) \<and>
         (\<forall>k. light_record (s\<lparr>stage := st\<rparr>) k =
            (if k = i
             then Some ((lights (stage s) ! h)
                    \<lparr>light_samples := (light_samples (lights (stage s) ! h))(t \<mapsto> (p, intensity, col))\<rparr>)
             else light_record s k))"
proof -
  from assms(4) have h: "h < length (lights (stage s))" and
    st: "lights st = (lights (stage s))[h := (lights (stage s) ! h)
                    \<lparr>light_samples := (light_samples (lights (stage s) ! h))(t \<mapsto> (p, intensity, col))\<rparr>]"
    by (auto simp: light_update_def split: if_splits)
  from assms(1) st have "inv_lights (s\<lparr>stage := st\<rparr>)" by (simp add: inv_lights_def)
  moreover have "light_record (s\<lparr>stage := st\<rparr>) k =
            (if k = i
             then Some ((lights (stage s) ! h)
                    \<lparr>light_samples := (light_samples (lights (stage s) ! h))(t \<mapsto> (p, intensity, col))\<rparr>)
             else light_record s k)" for k
  proof (cases "k = i")
    case True
    with assms(2,3) h st show ?thesis by (simp add: light_record_def)
  next
    case False
    show ?thesis
    proof (cases "k < length (usd_lights s)")
      case out: False
      with False show ?thesis by (simp add: light_record_def)
    next
      case True
      show ?thesis
      proof (cases "usd_lights s ! k")
        case None
        with True False show ?thesis by (simp add: light_record_def)
      next
        case (Some h')
        with assms(1,2,3) True False have "h' \<noteq> h"
          unfolding inv_lights_def slots_ok_def by blast
        with Some True False st show ?thesis by (simp add: light_record_def)
      qed
    qed
  qed
  ultimately show ?thesis by blast
qed


lemma light_record_stage_cong:
  "usd_lights s1 = usd_lights s \<Longrightarrow> lights (stage s1) = lights (stage s) \<Longrightarrow>
   light_record s1 k = light_record s k"
  by (simp add: light_record_def split: option.splits)

lemma update_lights_loop_record:
  "update_lights_loop s i ls = Inr s' \<Longrightarrow> inv_lights s \<Longrightarrow>
   inv_lights s' \<and>
   (\<forall>k. light_record s' k =
      (if i \<le> k \<and> k < i + length ls \<and> \<not> allclose_origin (light_pos (ls ! (k - i)))
       then map_option (\<lambda>r. r\<lparr>light_samples := (light_samples r)
               (updates s \<mapsto> (light_pos (ls ! (k - i)), light_intensity s,
                               light_diffuse (ls ! (k - i))))\<rparr>) (light_record s k)
       else light_record s k))"
proof (induction ls arbitrary: s i)
  case Nil
  then show ?case by auto
next
  case (Cons l ls)
  let ?f = "\<lambda>s ls i k. (\<lambda>r. r\<lparr>light_samples := (light_samples r)
               (updates s \<mapsto> (light_pos (ls ! (k - i)), light_intensity s,
                               light_diffuse (ls ! (k - i))))\<rparr>)"
  show ?case
  proof (cases "allclose_origin (light_pos l) \<or> i \<ge> length (usd_lights s) \<or>
                usd_lights s ! i = None")
    case True
    with Cons.prems have 2: "update_lights_loop s (i + 1) ls = Inr s'"
      by (auto split: if_splits)
    from Cons.IH [OF 2 Cons.prems(2)] have inv': "inv_lights s'" and
      ih: "\<And>k. light_record s' k =
      (if i + 1 \<le> k \<and> k < i + 1 + length ls \<and> \<not> allclose_origin (light_pos (ls ! (k - (i + 1))))
       then map_option (?f s ls (i + 1) k) (light_record s k)
       else light_record s k)"
      by blast+
    from True have none: "\<not> allclose_origin (light_pos l) \<Longrightarrow> light_record s i = None"
      by (auto simp: light_record_def)
    have "light_record s' k =
      (if i \<le> k \<and> k < i + length (l # ls) \<and> \<not> allclose_origin (light_pos ((l # ls) ! (k - i)))
       then map_option (?f s (l # ls) i k) (light_record s k)
       else light_record s k)" for k
    proof (cases "k = i")
      case k: True
      with ih [of i] none show ?thesis by simp
    next
      case False
      then have "k < i \<or> i < k" by auto
      then show ?thesis
      proof
        assume "k < i"
        with ih [of k] show ?thesis by simp
      next
        assume "i < k"
        then have "(l # ls) ! (k - i) = ls ! (k - (i + 1))" by (simp add: nth_Cons')
        with ih [of k] \<open>i < k\<close> show ?thesis by simp
      qed
    qed
    with inv' show ?thesis by blast
  next
    case False
    then obtain h where h: "usd_lights s ! i = Some h" and il: "i < length (usd_lights s)"
      and no: "\<not> allclose_origin (light_pos l)" by auto
    with Cons.prems obtain st where
      1: "light_update (stage s) h (light_pos l) (light_intensity s) (light_diffuse l)
            (updates s) = Inr st"
      and 2: "update_lights_loop (s\<lparr>stage := st\<rparr>) (i + 1) ls = Inr s'"
      by (auto split: sum.splits if_splits)
    from light_update_record [OF Cons.prems(2) il h 1] have
      inv1: "inv_lights (s\<lparr>stage := st\<rparr>)" and
      r1: "\<And>k. light_record (s\<lparr>stage := st\<rparr>) k =
            (if k = i
             then Some ((lights (stage s) ! h)
                    \<lparr>light_samples := (light_samples (lights (stage s) ! h))
                      (updates s \<mapsto> (light_pos l, light_intensity s, light_diffuse l))\<rparr>)
             else light_record s k)"
      by blast+
    from 1 have hl: "h < length (lights (stage s))"
      by (auto simp: light_update_def split: if_splits)
    with h il have ri: "light_record s i = Some (lights (stage s) ! h)"
      by (simp add: light_record_def)
    from Cons.IH [OF 2 inv1] have inv': "inv_lights s'" and
      ih: "\<And>k. light_record s' k =
      (if i + 1 \<le> k \<and> k < i + 1 + length ls \<and> \<not> allclose_origin (light_pos (ls ! (k - (i + 1))))
       then map_option (?f s ls (i + 1) k) (light_record (s\<lparr>stage := st\<rparr>) k)
       else light_record (s\<lparr>stage := st\<rparr>) k)"
      by simp_all
    have "light_record s' k =
      (if i \<le> k \<and> k < i + length (l # ls) \<and> \<not> allclose_origin (light_pos ((l # ls) ! (k - i)))
       then map_option (?f s (l # ls) i k) (light_record s k)
       else light_record s k)" for k
    proof (cases "k = i")
      case k: True
      with ih [of i] r1 [of i] ri no show ?thesis by simp
    next
      case False
      then have "k < i \<or> i < k" by auto
      then show ?thesis
      proof
        assume "k < i"
        with ih [of k] r1 [of k] show ?thesis by simp
      next
        assume "i < k"
        then have "(l # ls) ! (k - i) = ls ! (k - (i + 1))" by (simp add: nth_Cons')
        with ih [of k] r1 [of k] \<open>i < k\<close> show ?thesis by simp
      qed
    qed
    with inv' show ?thesis by blast
  qed
qed

subsection \<open>The invariants hold in every session\<close>

lemma inv_geoms_begin_update:
  assumes "inv_geoms s" and "inv_counters s"
  shows "inv_geoms (begin_update s sc)"
  using assms by (auto simp: inv_geoms_def inv_counters_def begin_update_fields)

lemma inv_lights_cong:
  "usd_lights s1 = usd_lights s \<Longrightarrow> length (lights (stage s1)) = length (lights (stage s)) \<Longrightarrow>
   inv_lights s1 = inv_lights s"
  by (simp add: inv_lights_def)

lemma inv_lights_begin_update:
  assumes "inv_lights s" and "inv_counters s"
  shows "inv_lights (begin_update s sc)"
proof (cases "updates s = 0")
  case True
  let ?s2 = "initialize_usd_stage (s\<lparr>frame_count := frame_count s + 1, scene := sc\<rparr>)"
  from True assms(2) have "usd_lights ?s2 = []"
    by (simp add: inv_counters_def initialize_usd_stage_def)
  then have "inv_lights ?s2" by (simp add: inv_lights_def slots_ok_def)
  then have "inv_lights (load_lights ?s2)"
    by (simp add: load_lights_def load_lights_loop_inv)
  then have "inv_lights (load_cameras (load_lights ?s2))"
    by (simp add: inv_lights_def load_cameras_fields)
  with True show ?thesis by (simp add: begin_update_def)
next
  case False
  with assms(1) show ?thesis by (simp add: begin_update_def inv_lights_def)
qed

lemma update_scene_fields:
  assumes "update_scene c s d opt = Inr s'"
  shows "model s' = model s" "updates s' = updates s + 1" "frame_count s' = frame_count s + 1"
    "camera_names s' = camera_names s" "light_intensity s' = light_intensity s"
    "scene_option_default s' = scene_option_default s"
    "start_time_code (stage s') = (if updates s = 0 then Some 0 else start_time_code (stage s))"
proof -
  obtain sc s4 s5 s6 where
    sn: "snapshot c s d opt = Inr sc" and
    g: "update_geoms_loop c (begin_update s sc) (scene_geoms sc) = Inr s4" and
    l: "update_lights_loop s4 0 (scene_lights sc) = Inr s5" and
    k: "update_cameras_loop c d (case opt of None \<Rightarrow> scene_option_default s | Some x \<Rightarrow> x)
        s5 0 (usd_cameras s5) = Inr s6" and
    e: "s' = s6\<lparr>updates := updates s6 + 1\<rparr>"
    by (rule update_scene_decomp [OF assms])
  note fg = update_geoms_loop_frame [OF g] and fl = update_lights_loop_frame [OF l]
    and fk = update_cameras_loop_frame [OF k]
  have "model s' = model s6" "updates s' = updates s6 + 1" "frame_count s' = frame_count s6"
    "camera_names s' = camera_names s6" "light_intensity s' = light_intensity s6"
    "scene_option_default s' = scene_option_default s6"
    "start_time_code (stage s') = start_time_code (stage s6)"
    unfolding e by simp_all
  moreover have "model s6 = model s5" "updates s6 = updates s5" "frame_count s6 = frame_count s5"
    "camera_names s6 = camera_names s5" "light_intensity s6 = light_intensity s5"
    "scene_option_default s6 = scene_option_default s5"
    "start_time_code (stage s6) = start_time_code (stage s5)"
    using fk by blast+
  moreover have "model s5 = model s4" "updates s5 = updates s4" "frame_count s5 = frame_count s4"
    "camera_names s5 = camera_names s4" "light_intensity s5 = light_intensity s4"
    "scene_option_default s5 = scene_option_default s4"
    "start_time_code (stage s5) = start_time_code (stage s4)"
    using fl by blast+
  moreover have "model s4 = model s" "updates s4 = updates s" "frame_count s4 = frame_count s + 1"
    "camera_names s4 = camera_names s" "light_intensity s4 = light_intensity s"
    "scene_option_default s4 = scene_option_default s"
    "start_time_code (stage s4) = (if updates s = 0 then Some 0 else start_time_code (stage s))"
    using fg by (simp_all add: begin_update_fields)
  ultimately show "model s' = model s" "updates s' = updates s + 1"
    "frame_count s' = frame_count s + 1"
    "camera_names s' = camera_names s" "light_intensity s' = light_intensity s"
    "scene_option_default s' = scene_option_default s"
    "start_time_code (stage s') = (if updates s = 0 then Some 0 else start_time_code (stage s))"
    by simp_all
qed

lemma update_scene_inv:
  assumes "update_scene c s d opt = Inr s'" and "inv s"
  shows "inv s'"
proof -
  from assms(2) have ig: "inv_geoms s" and il: "inv_lights s" and ic: "inv_counters s"
    by (simp_all add: inv_def)
  obtain sc s4 s5 s6 where
    sn: "snapshot c s d opt = Inr sc" and
    g: "update_geoms_loop c (begin_update s sc) (scene_geoms sc) = Inr s4" and
    l: "update_lights_loop s4 0 (scene_lights sc) = Inr s5" and
    k: "update_cameras_loop c d (case opt of None \<Rightarrow> scene_option_default s | Some x \<Rightarrow> x)
        s5 0 (usd_cameras s5) = Inr s6" and
    e: "s' = s6\<lparr>updates := updates s6 + 1\<rparr>"
    by (rule update_scene_decomp [OF assms(1)])
  note fg = update_geoms_loop_frame [OF g] and fl = update_lights_loop_frame [OF l]
    and fk = update_cameras_loop_frame [OF k]
  from update_geoms_loop_inv_geoms [OF g inv_geoms_begin_update [OF ig ic]]
  have "inv_geoms s4" .
  with fl fk e have 1: "inv_geoms s'" by (simp add: inv_geoms_def)
  from inv_lights_begin_update [OF il ic] fg have "inv_lights s4"
    by (simp add: inv_lights_def)
  from update_lights_loop_record [OF l this] have "inv_lights s5" by simp
  with fk e have 2: "inv_lights s'" by (simp add: inv_lights_def)
  from update_scene_fields [OF assms(1)] ic have 3: "inv_counters s'"
    by (simp add: inv_counters_def)
  from 1 2 3 show ?thesis by (simp add: inv_def)
qed

lemma finalize_visibility_objects:
  "finalize_visibility st refs = Inr st' \<Longrightarrow> distinct (map snd refs) \<Longrightarrow>
   length (objects st') = length (objects st) \<and>
   lights st' = lights st \<and> cameras st' = cameras st \<and>
   start_time_code st' = start_time_code st \<and> end_time_code st' = end_time_code st \<and>
   (\<forall>h < length (objects st). objects st' ! h =
      (if h \<in> snd ` set refs
       then (objects st ! h)\<lparr>visibility_samples := (visibility_samples (objects st ! h))
               (last_visible_frame (objects st ! h) + 1 \<mapsto> False)\<rparr>
       else objects st ! h))"
proof (induction refs arbitrary: st)
  case Nil
  then show ?case by simp
next
  case (Cons x refs)
  obtain n r where x: "x = (n, r)" by (cases x)
  with Cons.prems(1) obtain st1 where
    r: "r < length (objects st)" and
    1: "update_visibility st r False (last_visible_frame (objects st ! r) + 1) = Inr st1" and
    2: "finalize_visibility st1 refs = Inr st'"
    by (auto split: if_splits sum.splits)
  from 1 r have o1: "objects st1 = (objects st)[r := (objects st ! r)
          \<lparr>visibility_samples := (visibility_samples (objects st ! r))
               (last_visible_frame (objects st ! r) + 1 \<mapsto> False)\<rparr>]"
    and f1: "lights st1 = lights st" "cameras st1 = cameras st"
      "start_time_code st1 = start_time_code st" "end_time_code st1 = end_time_code st"
    by (auto simp: update_visibility_def)
  from Cons.prems(2) x have d: "distinct (map snd refs)" and nr: "r \<notin> snd ` set refs"
    by auto
  from Cons.IH [OF 2 d] have
    ih: "length (objects st') = length (objects st1)"
      "lights st' = lights st1" "cameras st' = cameras st1"
      "start_time_code st' = start_time_code st1" "end_time_code st' = end_time_code st1"
      "\<And>h. h < length (objects st1) \<Longrightarrow> objects st' ! h =
      (if h \<in> snd ` set refs
       then (objects st1 ! h)\<lparr>visibility_samples := (visibility_samples (objects st1 ! h))
               (last_visible_frame (objects st1 ! h) + 1 \<mapsto> False)\<rparr>
       else objects st1 ! h)"
    by blast+
  have "objects st' ! h =
      (if h \<in> snd ` set (x # refs)
       then (objects st ! h)\<lparr>visibility_samples := (visibility_samples (objects st ! h))
               (last_visible_frame (objects st ! h) + 1 \<mapsto> False)\<rparr>
       else objects st ! h)" if "h < length (objects st)" for h
  proof (cases "h = r")
    case True
    with ih(6) [of r] nr r o1 x show ?thesis by simp
  next
    case False
    with ih(6) [of h] that o1 x show ?thesis by simp
  qed
  with ih f1 o1 show ?case by simp
qed

lemma add_light_fields:
  assumes "add_light s p intensity radius col name ltype = Inr s'"
  shows "model s' = model s" "updates s' = updates s" "frame_count s' = frame_count s"
    "geom_names s' = geom_names s" "geom_refs s' = geom_refs s"
    "usd_lights s' = usd_lights s" "usd_cameras s' = usd_cameras s"
    "camera_names s' = camera_names s" "scene_option_default s' = scene_option_default s"
    "objects (stage s') = objects (stage s)" "cameras (stage s') = cameras (stage s)"
    "start_time_code (stage s') = start_time_code (stage s)"
    "end_time_code (stage s') = end_time_code (stage s)"
    "length (lights (stage s)) \<le> length (lights (stage s'))"
  using assms
  by (auto simp: add_light_def define_light_def light_update_def dome_light_update_def
      split: if_splits)

lemma add_camera_fields:
  assumes "add_camera c s p rot name = Inr s'"
  shows "model s' = model s" "updates s' = updates s" "frame_count s' = frame_count s"
    "geom_names s' = geom_names s" "geom_refs s' = geom_refs s"
    "usd_lights s' = usd_lights s" "usd_cameras s' = usd_cameras s"
    "camera_names s' = camera_names s" "scene_option_default s' = scene_option_default s"
    "objects (stage s') = objects (stage s)" "lights (stage s') = lights (stage s)"
    "start_time_code (stage s') = start_time_code (stage s)"
    "end_time_code (stage s') = end_time_code (stage s)"
  using assms
  by (auto simp: add_camera_def define_camera_def camera_update_def split: if_splits)

lemma save_scene_Inr:
  assumes "save_scene s ft = Inr (s', f)"
  shows "ft \<in> {''usd'', ''usda'', ''usdc''}"
    "finalize_visibility ((stage s)\<lparr>end_time_code := Some (frame_count s)\<rparr>) (geom_refs s)
       = Inr (stage s')"
    "s' = s\<lparr>stage := stage s'\<rparr>" "file_document f = stage s'"
    "file_path f = output_directory_root s @ ''/'' @ output_directory_name s @ ''/''
                    @ ''frames/frame_'' @ str_int (frame_count s) @ ''.'' @ ft"
  using assms
  by (auto simp: save_scene_def Let_def split: if_splits sum.splits)

lemma save_scene_fields:
  assumes "save_scene s ft = Inr (s', f)" and "inv_geoms s"
  shows "model s' = model s" "updates s' = updates s" "frame_count s' = frame_count s"
    "geom_names s' = geom_names s" "geom_refs s' = geom_refs s"
    "usd_lights s' = usd_lights s" "usd_cameras s' = usd_cameras s"
    "camera_names s' = camera_names s" "scene_option_default s' = scene_option_default s"
    "length (objects (stage s')) = length (objects (stage s))"
    "lights (stage s') = lights (stage s)" "cameras (stage s') = cameras (stage s)"
    "start_time_code (stage s') = start_time_code (stage s)"
    "end_time_code (stage s') = Some (frame_count s)"
proof -
  note a = save_scene_Inr [OF assms(1)]
  from assms(2) have d: "distinct (map snd (geom_refs s))" by (simp add: inv_geoms_def)
  note b = finalize_visibility_objects [OF a(2) d]
  have e: "model s' = model (s\<lparr>stage := stage s'\<rparr>)"
    "updates s' = updates (s\<lparr>stage := stage s'\<rparr>)"
    "frame_count s' = frame_count (s\<lparr>stage := stage s'\<rparr>)"
    "geom_names s' = geom_names (s\<lparr>stage := stage s'\<rparr>)"
    "geom_refs s' = geom_refs (s\<lparr>stage := stage s'\<rparr>)"
    "usd_lights s' = usd_lights (s\<lparr>stage := stage s'\<rparr>)"
    "usd_cameras s' = usd_cameras (s\<lparr>stage := stage s'\<rparr>)"
    "camera_names s' = camera_names (s\<lparr>stage := stage s'\<rparr>)"
    "scene_option_default s' = scene_option_default (s\<lparr>stage := stage s'\<rparr>)"
    using a(3) by simp_all
  from e show "model s' = model s" "updates s' = updates s" "frame_count s' = frame_count s"
    "geom_names s' = geom_names s" "geom_refs s' = geom_refs s"
    "usd_lights s' = usd_lights s" "usd_cameras s' = usd_cameras s"
    "camera_names s' = camera_names s" "scene_option_default s' = scene_option_default s"
    by simp_all
  from b show "length (objects (stage s')) = length (objects (stage s))"
    "lights (stage s') = lights (stage s)" "cameras (stage s') = cameras (stage s)"
    "start_time_code (stage s') = start_time_code (stage s)"
    "end_time_code (stage s') = Some (frame_count s)"
    by simp_all
qed

lemma slots_ok_mono:
  assumes "slots_ok L n" and "n \<le> m"
  shows "slots_ok L m"
  unfolding slots_ok_def
proof (intro allI impI)
  fix i h assume "i < length L" "L ! i = Some h"
  with assms(1) have "h < n" "\<forall>j < length L. L ! j = Some h \<longrightarrow> j = i"
    unfolding slots_ok_def by blast+
  with assms(2) show "h < m \<and> (\<forall>j < length L. L ! j = Some h \<longrightarrow> j = i)" by simp
qed

lemma exec_inv:
  assumes "exec c s x = Inr s'" and "inv s"
  shows "inv s'"
proof (cases x)
  case (UpdateScene d opt)
  with assms show ?thesis by (auto intro: update_scene_inv)
next
  case (AddLight p intensity radius col name ltype)
  with assms(1) have a: "add_light s p intensity radius col name ltype = Inr s'" by simp
  note f = add_light_fields [OF a]
  from assms(2) f(14) have "slots_ok (usd_lights s) (length (lights (stage s')))"
    by (auto simp: inv_def inv_lights_def intro: slots_ok_mono)
  with assms(2) f show ?thesis
    by (simp add: inv_def inv_geoms_def inv_lights_def inv_counters_def)
next
  case (AddCamera p rot name)
  with assms(1) have a: "add_camera c s p rot name = Inr s'" by simp
  note f = add_camera_fields [OF a]
  with assms(2) show ?thesis
    by (simp add: inv_def inv_geoms_def inv_lights_def inv_counters_def)
next
  case (SaveScene ft)
  with assms(1) obtain f where a: "save_scene s ft = Inr (s', f)"
    by (auto split: sum.splits)
  from assms(2) have "inv_geoms s" by (simp add: inv_def)
  note f = save_scene_fields [OF a this]
  with assms(2) show ?thesis
    by (simp add: inv_def inv_geoms_def inv_lights_def inv_counters_def)
qed

lemma run_inv: "run c s xs = Inr s' \<Longrightarrow> inv s \<Longrightarrow> inv s'"
proof (induction xs arbitrary: s)
  case Nil
  then show ?case by simp
next
  case (Cons x xs)
  from Cons.prems(1) obtain s1 where 1: "exec c s x = Inr s1" and 2: "run c s1 xs = Inr s'"
    by (auto split: sum.splits)
  from Cons.IH [OF 2 exec_inv [OF 1 Cons.prems(2)]] show ?case .
qed

lemma init_Inr:
  assumes "init c m a = Inr s"
  shows "arg_width a \<le> offwidth m" "arg_height a \<le> offheight m"
    "model s = m" "height s = arg_height a" "width s = arg_width a"
    "frame_count s = 0" "updates s = 0" "geom_names s = {}" "geom_refs s = []"
    "usd_lights s = []" "usd_cameras s = []" "camera_names s = arg_camera_names a"
    "scene_option_default s = default_option c"
    "light_intensity s = arg_light_intensity a"
    "output_directory_root s = arg_output_directory_root a"
    "output_directory_name s = arg_output_directory_name a"
    "stage s = CreateInMemory
          \<lparr>up_axis := Some ''Z'', start_time_code := Some 0,
           time_codes_per_second := Some 60, default_prim := Some ''/World''\<rparr>"
  using assms
  by (auto simp: init_def Let_def load_textures_def initialize_usd_stage_def
      split: if_splits sum.splits)

lemma init_inv:
  assumes "init c m a = Inr s"
  shows "inv s"
  using init_Inr(6-11,17) [OF assms]
  by (simp add: inv_def inv_geoms_def inv_lights_def slots_ok_def inv_counters_def
        CreateInMemory_def)

subsection \<open>Evaluating the example\<close>

lemma init0: "init collab0 model0 default_args = Inr exporter0"
  by (simp add: init_def model0_def default_args_def load_textures_def
      initialize_usd_stage_def CreateInMemory_def collab0_def exporter0_def)

lemmas eval_defs = update_scene_def collab0_def scene_of_def load_lights_def
  load_cameras_def update_geoms_def update_geom_def load_geom_def get_geom_name_def
  decor_def floor_geom_def light_at_def str_int_def str_nat.simps define_object_def
  new_object_def object_update_def object_record_update_def update_lights_def
  update_cameras_def CreateInMemory_def mesh_config_generator_def Let_def model0_def
  initialize_usd_stage_def exporter0_def alpha_def allclose_origin_def define_light_def
  new_light_def light_update_def save_scene_def update_visibility_def
  add_light_def add_camera_def dome_light_update_def camera_update_def define_camera_def
  new_camera_def snapshot_def geom_record_def light_record_def

lemma load_textures_loop_Inl:
  "load_textures_loop m k i adr files = Inl e \<Longrightarrow>
     e = IndexError \<or> (\<exists>n j. e = ValueError (ReshapeSize n j))"
  by (induction k arbitrary: i adr files)
     (auto simp: list_get_def Let_def split: sum.splits if_splits)

lemma load_textures_Inl:
  "load_textures s = Inl e \<Longrightarrow> e = IndexError \<or> (\<exists>n j. e = ValueError (ReshapeSize n j))"
  by (auto simp: load_textures_def split: sum.splits dest: load_textures_loop_Inl)

text \<open>
  C4. Construction compares the requested image size with the model's offscreen
  framebuffer first. When the width is over \<^verbatim>\<open>offwidth\<close>, or the height over
  \<^verbatim>\<open>offheight\<close>, it raises the \<^verbatim>\<open>ValueError\<close> of that dimension (the width's when both
  are over). Otherwise the check passes and construction goes on: it never raises one of
  these two errors, and for a model without textures it returns the exporter, with the
  counters at 0.
\<close>

theorem init_dimension_check:
  "(arg_width a > offwidth m \<or> arg_height a > offheight m \<longrightarrow>
      init c m a = Inl (ValueError
        (if arg_width a > offwidth m then ImageWidthExceeds (arg_width a) (offwidth m)
         else ImageHeightExceeds (arg_height a) (offheight m)))) \<and>
   (arg_width a \<le> offwidth m \<and> arg_height a \<le> offheight m \<longrightarrow>
      (\<forall>x b. init c m a \<noteq> Inl (ValueError (ImageWidthExceeds x b)) \<and>
             init c m a \<noteq> Inl (ValueError (ImageHeightExceeds x b))) \<and>
      (ntex m = 0 \<longrightarrow>
         (\<exists>s. init c m a = Inr s \<and> model s = m \<and> height s = arg_height a \<and>
              width s = arg_width a \<and> frame_count s = 0 \<and> updates s = 0)))"
proof -
  have 1: "arg_width a \<le> offwidth m \<and> arg_height a \<le> offheight m \<longrightarrow>
      (\<forall>x b. init c m a \<noteq> Inl (ValueError (ImageWidthExceeds x b)) \<and>
             init c m a \<noteq> Inl (ValueError (ImageHeightExceeds x b)))"
    by (auto simp: init_def Let_def dest: load_textures_Inl)
  have 2: "arg_width a \<le> offwidth m \<and> arg_height a \<le> offheight m \<longrightarrow> ntex m = 0 \<longrightarrow>
         (\<exists>s. init c m a = Inr s \<and> model s = m \<and> height s = arg_height a \<and>
              width s = arg_width a \<and> frame_count s = 0 \<and> updates s = 0)"
    by (simp add: init_def Let_def load_textures_def initialize_usd_stage_def)
  have 3: "arg_width a > offwidth m \<or> arg_height a > offheight m \<longrightarrow>
      init c m a = Inl (ValueError
        (if arg_width a > offwidth m then ImageWidthExceeds (arg_width a) (offwidth m)
         else ImageHeightExceeds (arg_height a) (offheight m)))"
    by (simp add: init_def Let_def)
  from 1 2 3 show ?thesis by blast
qed

theorem init_dimension_check_witness:
  "(\<exists>s. init collab0 model0 default_args = Inr s \<and> height s = 480 \<and> width s = 480) \<and>
   init collab0 model0 (default_args\<lparr>arg_width := 641\<rparr>) =
     Inl (ValueError (ImageWidthExceeds 641 640)) \<and>
   init collab0 model0 (default_args\<lparr>arg_height := 481\<rparr>) =
     Inl (ValueError (ImageHeightExceeds 481 480))"
  using init_dimension_check [where a = default_args and m = model0 and c = collab0]
    init_dimension_check [where a = "default_args\<lparr>arg_width := 641\<rparr>" and m = model0
      and c = collab0]
    init_dimension_check [where a = "default_args\<lparr>arg_height := 481\<rparr>" and m = model0
      and c = collab0]
  by (auto simp: model0_def default_args_def)

lemma finalize_visibility_Inl:
  "finalize_visibility st refs = Inl e \<Longrightarrow> e = ExpiredPrim"
  by (induction st refs rule: finalize_visibility.induct)
     (auto simp: update_visibility_def split: if_splits sum.splits)

lemma finalize_visibility_succeeds:
  "\<forall>h \<in> snd ` set refs. h < length (objects st) \<Longrightarrow>
   \<exists>st'. finalize_visibility st refs = Inr st'"
proof (induction refs arbitrary: st)
  case Nil
  then show ?case by simp
next
  case (Cons x refs)
  obtain n r where x: "x = (n, r)" by (cases x)
  with Cons.prems have r: "r < length (objects st)" by simp
  let ?st1 = "st\<lparr>objects := (objects st)[r := (objects st ! r)
       \<lparr>visibility_samples := (visibility_samples (objects st ! r))
          (last_visible_frame (objects st ! r) + 1 \<mapsto> False)\<rparr>]\<rparr>"
  from Cons.prems have "\<forall>h \<in> snd ` set refs. h < length (objects ?st1)" by simp
  from Cons.IH [OF this] obtain st' where "finalize_visibility ?st1 refs = Inr st'" by blast
  with x r show ?case by (simp add: update_visibility_def)
qed

text \<open>
  C5. \<^verbatim>\<open>save_scene\<close> with a file type outside usd, usda, usdc raises the assertion error,
  and nothing is exported. With one of the three the assertion passes: the call never
  raises the assertion error, and in every session it exports the stage, with the end
  time code set to the frame counter, to the file named by the frame counter and the
  file type.
\<close>

theorem save_scene_filetype:
  "(ft \<notin> {''usd'', ''usda'', ''usdc''} \<longrightarrow> save_scene s ft = Inl AssertionError) \<and>
   (ft \<in> {''usd'', ''usda'', ''usdc''} \<longrightarrow>
      save_scene s ft \<noteq> Inl AssertionError \<and>
      (init c m a = Inr s0 \<and> run c s0 xs = Inr s \<longrightarrow>
         (\<exists>s' f. save_scene s ft = Inr (s', f) \<and> file_document f = stage s' \<and>
            end_time_code (stage s') = Some (frame_count s) \<and>
            file_path f = output_directory_root s @ ''/'' @ output_directory_name s @
              ''/frames/frame_'' @ str_int (frame_count s) @ ''.'' @ ft)))"
proof (intro conjI impI)
  assume "ft \<notin> {''usd'', ''usda'', ''usdc''}"
  then show "save_scene s ft = Inl AssertionError"
    by (simp add: save_scene_def)
next
  assume "ft \<in> {''usd'', ''usda'', ''usdc''}"
  then have "ft \<in> set [''usd'', ''usda'', ''usdc'']" by simp
  then show "save_scene s ft \<noteq> Inl AssertionError"
    unfolding save_scene_def Let_def
    by (auto simp del: set_simps split: sum.splits dest: finalize_visibility_Inl)
next
  assume ft: "ft \<in> {''usd'', ''usda'', ''usdc''}"
    and ir: "init c m a = Inr s0 \<and> run c s0 xs = Inr s"
  from ft have ft': "ft \<in> set [''usd'', ''usda'', ''usdc'']" by simp
  from ir have i: "init c m a = Inr s0" and r: "run c s0 xs = Inr s" by simp_all
  from run_inv [OF r init_inv [OF i]] have g: "inv_geoms s" by (simp add: inv_def)
  then have "\<forall>h \<in> snd ` set (geom_refs s).
     h < length (objects ((stage s)\<lparr>end_time_code := Some (frame_count s)\<rparr>))"
    by (simp add: inv_geoms_def)
  from finalize_visibility_succeeds [OF this] obtain st' where
    "finalize_visibility ((stage s)\<lparr>end_time_code := Some (frame_count s)\<rparr>) (geom_refs s)
       = Inr st'" by blast
  with ft' obtain s' f where sv: "save_scene s ft = Inr (s', f)"
    unfolding save_scene_def Let_def by (simp del: set_simps)
  from save_scene_Inr(4,5) [OF sv] save_scene_fields(14) [OF sv g]
  have "file_document f = stage s' \<and>
          end_time_code (stage s') = Some (frame_count s) \<and>
          file_path f = output_directory_root s @ ''/'' @ output_directory_name s @
            ''/frames/frame_'' @ str_int (frame_count s) @ ''.'' @ ft"
    by simp
  with sv show "\<exists>s' f. save_scene s ft = Inr (s', f) \<and> file_document f = stage s' \<and>
          end_time_code (stage s') = Some (frame_count s) \<and>
          file_path f = output_directory_root s @ ''/'' @ output_directory_name s @
            ''/frames/frame_'' @ str_int (frame_count s) @ ''.'' @ ft"
    by blast
qed

theorem save_scene_filetype_witness:
  "save_scene exporter0 ''xml'' = Inl AssertionError \<and>
   (\<exists>s' f. save_scene exporter0 ''usda'' = Inr (s', f) \<and>
      end_time_code (file_document f) = Some 0 \<and>
      file_path f = ''.//mujoco_usdpkg/frames/frame_0.usda'')"
  using save_scene_filetype [where ft = "''xml''" and s = exporter0]
    save_scene_filetype [where ft = "''usda''" and s = exporter0 and c = collab0
      and m = model0 and a = default_args and ?s0.0 = exporter0 and xs = "[]"] init0
  by (auto simp: exporter0_def str_int_def str_nat.simps)

lemma exec_counters:
  assumes "exec c s x = Inr s'" and "inv s"
  shows "frame_count s' = frame_count s + (if is_update x then 1 else 0)"
    "updates s' = updates s + (if is_update x then 1 else 0)"
    "model s' = model s" "camera_names s' = camera_names s"
    "scene_option_default s' = scene_option_default s"
proof -
  from assms(2) have g: "inv_geoms s" by (simp add: inv_def)
  have "frame_count s' = frame_count s + (if is_update x then 1 else 0) \<and>
    updates s' = updates s + (if is_update x then 1 else 0) \<and>
    model s' = model s \<and> camera_names s' = camera_names s \<and>
    scene_option_default s' = scene_option_default s"
  proof (cases x)
    case (UpdateScene d opt)
    with assms(1) have "update_scene c s d opt = Inr s'" by simp
    from update_scene_fields [OF this] UpdateScene show ?thesis by simp
  next
    case (AddLight p intensity radius col name ltype)
    with assms(1) have "add_light s p intensity radius col name ltype = Inr s'" by simp
    from add_light_fields [OF this] AddLight show ?thesis by simp
  next
    case (AddCamera p rot name)
    with assms(1) have "add_camera c s p rot name = Inr s'" by simp
    from add_camera_fields [OF this] AddCamera show ?thesis by simp
  next
    case (SaveScene ft)
    with assms(1) obtain f where "save_scene s ft = Inr (s', f)"
      by (auto split: sum.splits)
    from save_scene_fields [OF this g] SaveScene show ?thesis by simp
  qed
  then show "frame_count s' = frame_count s + (if is_update x then 1 else 0)"
    "updates s' = updates s + (if is_update x then 1 else 0)"
    "model s' = model s" "camera_names s' = camera_names s"
    "scene_option_default s' = scene_option_default s"
    by simp_all
qed

lemma run_counters:
  "run c s xs = Inr s' \<Longrightarrow> inv s \<Longrightarrow>
   frame_count s' = frame_count s + int (count_updates xs) \<and>
   updates s' = updates s + int (count_updates xs) \<and>
   model s' = model s \<and> camera_names s' = camera_names s \<and>
   scene_option_default s' = scene_option_default s"
proof (induction xs arbitrary: s)
  case Nil
  then show ?case by (simp add: count_updates_def)
next
  case (Cons x xs)
  from Cons.prems(1) obtain s1 where 1: "exec c s x = Inr s1" and 2: "run c s1 xs = Inr s'"
    by (auto split: sum.splits)
  from Cons.IH [OF 2 exec_inv [OF 1 Cons.prems(2)]] exec_counters [OF 1 Cons.prems(2)]
  show ?case by (simp add: count_updates_def)
qed

text \<open>
  C3. In a session that calls \<^verbatim>\<open>update_scene\<close> \<open>N\<close> times (whatever else it calls), the
  document \<^verbatim>\<open>save_scene\<close> then exports has start time code 0 and end time code \<open>N\<close>.
\<close>

theorem time_range:
  assumes "init c m a = Inr s0" and "run c s0 xs = Inr s"
    and "save_scene s ft = Inr (s', f)"
  shows "start_time_code (file_document f) = Some 0 \<and>
         end_time_code (file_document f) = Some (int (count_updates xs))"
proof -
  note i = run_inv [OF assms(2) init_inv [OF assms(1)]]
  then have g: "inv_geoms s" and c: "inv_counters s" by (simp_all add: inv_def)
  from run_counters [OF assms(2) init_inv [OF assms(1)]] init_Inr(6) [OF assms(1)]
  have "frame_count s = int (count_updates xs)" by simp
  with save_scene_Inr(4) [OF assms(3)] save_scene_fields(13,14) [OF assms(3) g] c
  show ?thesis by (simp add: inv_counters_def)
qed

lemma save_scene_succeeds:
  assumes "inv_geoms s" and "ft \<in> set [''usd'', ''usda'', ''usdc'']"
  shows "\<exists>s' f. save_scene s ft = Inr (s', f)"
proof -
  from assms(1) have "\<forall>h \<in> snd ` set (geom_refs s).
     h < length (objects ((stage s)\<lparr>end_time_code := Some (frame_count s)\<rparr>))"
    by (simp add: inv_geoms_def)
  from finalize_visibility_succeeds [OF this] obtain st' where
    "finalize_visibility ((stage s)\<lparr>end_time_code := Some (frame_count s)\<rparr>) (geom_refs s)
       = Inr st'" by blast
  with assms(2) show ?thesis
    unfolding save_scene_def Let_def by (simp del: set_simps)
qed

lemma run_session2: "\<exists>s. run collab0 exporter0 session2 = Inr s"
  by (simp add: session2_def scene1_def scene2_def eval_defs)

theorem time_range_witness:
  "\<exists>s s' f. init collab0 model0 default_args = Inr exporter0 \<and>
     run collab0 exporter0 session2 = Inr s \<and> save_scene s ''usd'' = Inr (s', f) \<and>
     start_time_code (file_document f) = Some 0 \<and>
     end_time_code (file_document f) = Some 2"
proof -
  from run_session2 obtain s where r: "run collab0 exporter0 session2 = Inr s" by blast
  from run_inv [OF r init_inv [OF init0]] have "inv_geoms s" by (simp add: inv_def)
  from save_scene_succeeds [OF this, of "''usd''"] obtain s' f where
    sv: "save_scene s ''usd'' = Inr (s', f)" by auto
  from time_range [OF init0 r sv] init0 r sv show ?thesis
    by (auto simp: count_updates_def session2_def)
qed

text \<open>
  C10. \<^verbatim>\<open>add_light\<close> with a light type other than sphere and dome returns with the
  exporter as it was. With sphere it adds one sphere-light prim to the stage, whose only
  time sample is at 0; with dome it adds one dome-light prim with no time sample, its
  attributes set without a time. Nothing else of the exporter changes.
\<close>

theorem add_light_cases:
  "(ltype \<noteq> ''sphere'' \<and> ltype \<noteq> ''dome'' \<longrightarrow>
      add_light s p intensity radius col name ltype = Inr s) \<and>
   (ltype = ''sphere'' \<longrightarrow>
      add_light s p intensity radius col name ltype =
        Inr (s\<lparr>stage := (stage s)\<lparr>lights := lights (stage s) @
          [\<lparr>light_kind = USDSphereLight, light_obj_name = name, light_radius = radius,
            light_samples = [0 \<mapsto> (p, intensity, col)], light_default = None\<rparr>]\<rparr>\<rparr>)) \<and>
   (ltype = ''dome'' \<longrightarrow>
      add_light s p intensity radius col name ltype =
        Inr (s\<lparr>stage := (stage s)\<lparr>lights := lights (stage s) @
          [\<lparr>light_kind = USDDomeLight, light_obj_name = name, light_radius = None,
            light_samples = Map.empty, light_default = Some (intensity, col)\<rparr>]\<rparr>\<rparr>))"
  by (simp add: add_light_def define_light_def new_light_def light_update_def
      dome_light_update_def)

theorem add_light_cases_witness:
  "add_light exporter0 (1, 2, 3) 5000 (Some 1) (1, 1, 1) ''light_1'' ''spot'' = Inr exporter0 \<and>
   (\<exists>s. add_light exporter0 (1, 2, 3) 5000 (Some 1) (1, 1, 1) ''light_1'' ''sphere'' = Inr s \<and>
      length (lights (stage s)) = 1 \<and> dom (light_samples (lights (stage s) ! 0)) = {0} \<and>
      updates s = 0 \<and> usd_lights s = []) \<and>
   (\<exists>s. add_light exporter0 (1, 2, 3) 5000 (Some 1) (1, 1, 1) ''light_1'' ''dome'' = Inr s \<and>
      length (lights (stage s)) = 1 \<and> dom (light_samples (lights (stage s) ! 0)) = {} \<and>
      light_default (lights (stage s) ! 0) = Some (5000, (1, 1, 1)))"
  using add_light_cases [where s = exporter0 and p = "(1, 2, 3)" and intensity = 5000
      and radius = "Some 1" and col = "(1, 1, 1)" and name = "''light_1''"
      and ltype = "''spot''"]
    add_light_cases [where s = exporter0 and p = "(1, 2, 3)" and intensity = 5000
      and radius = "Some 1" and col = "(1, 1, 1)" and name = "''light_1''"
      and ltype = "''sphere''"]
    add_light_cases [where s = exporter0 and p = "(1, 2, 3)" and intensity = 5000
      and radius = "Some 1" and col = "(1, 1, 1)" and name = "''light_1''"
      and ltype = "''dome''"]
  by (simp add: exporter0_def)

lemma update_geoms_loop_Inl:
  "update_geoms_loop c s gs = Inl e \<Longrightarrow> e = IndexError \<or> e = KeyError \<or> e = ExpiredPrim"
  by (induction gs arbitrary: s) (auto split: sum.splits dest: update_geom_Inl)

lemma update_geom_seen:
  assumes "update_geom c s g = Inr s'"
  shows "get_geom_name (model s') g \<in> geom_names s'"
proof -
  from update_geom_frame [OF assms] have m: "model s' = model s" by simp
  from update_geom_Inr [OF assms] have "get_geom_name (model s) g \<in> geom_names s'"
    by (auto dest!: load_geom_Inr)
  with m show ?thesis by simp
qed

text \<open>
  C1 as the code has it. The assertion of \<^verbatim>\<open>_load_geom\<close> fails exactly when it is called
  for a name that is already in \<^verbatim>\<open>geom_names\<close>. \<^verbatim>\<open>_update_geoms\<close> calls it only for a
  name that is not, so it never raises the assertion error: an instance is processed with
  its name among the names seen afterwards, and an instance whose name has been seen
  (in the same frame or an earlier one) updates the record of that name, with no record
  created.
\<close>

theorem load_geom_assertion:
  "(load_geom c s g = Inl AssertionError \<longleftrightarrow> get_geom_name (model s) g \<in> geom_names s) \<and>
   update_geom c s g \<noteq> Inl AssertionError \<and>
   update_geoms c s \<noteq> Inl AssertionError \<and>
   (\<forall>s'. update_geom c s g = Inr s' \<longrightarrow> get_geom_name (model s') g \<in> geom_names s') \<and>
   (get_geom_name (model s) g \<in> geom_names s \<longrightarrow>
      (\<forall>s'. update_geom c s g = Inr s' \<longrightarrow>
         geom_names s' = geom_names s \<and> geom_refs s' = geom_refs s \<and>
         length (objects (stage s')) = length (objects (stage s))))"
proof (intro conjI allI impI)
  show "load_geom c s g = Inl AssertionError \<longleftrightarrow> get_geom_name (model s) g \<in> geom_names s"
  proof
    assume "load_geom c s g = Inl AssertionError"
    from load_geom_Inl [OF this] show "get_geom_name (model s) g \<in> geom_names s" by simp
  next
    assume "get_geom_name (model s) g \<in> geom_names s"
    then show "load_geom c s g = Inl AssertionError" by (simp add: load_geom_def Let_def)
  qed
  show "update_geom c s g \<noteq> Inl AssertionError"
    using update_geom_Inl [of c s g AssertionError] by auto
  show "update_geoms c s \<noteq> Inl AssertionError"
    using update_geoms_loop_Inl [of c s "scene_geoms (scene s)" AssertionError]
    by (auto simp: update_geoms_def)
next
  fix s' assume "update_geom c s g = Inr s'"
  then show "get_geom_name (model s') g \<in> geom_names s'" by (rule update_geom_seen)
next
  fix s' assume n: "get_geom_name (model s) g \<in> geom_names s"
    and u: "update_geom c s g = Inr s'"
  from update_geom_Inr [OF u] n
  show "geom_names s' = geom_names s" "geom_refs s' = geom_refs s"
    "length (objects (stage s')) = length (objects (stage s))"
    by auto
qed

theorem load_geom_assertion_witness:
  "get_geom_name (model exporter1) (decor (1 / 2)) \<in> geom_names exporter1 \<and>
   load_geom collab0 exporter1 (decor (1 / 2)) = Inl AssertionError \<and>
   (\<exists>s'. update_geom collab0 exporter1 (decor (1 / 2)) = Inr s' \<and>
      geom_refs s' = [(''None_id-1'', 0)] \<and> length (objects (stage s')) = 1)"
  using load_geom_assertion [where c = collab0 and s = exporter1 and g = "decor (1 / 2)"]
  by (simp add: exporter1_def eval_defs)

text \<open>
  C1 as stated fails: a frame with two instances that derive the same name is processed
  without an error, and the two share one record.
\<close>

theorem duplicate_name_counterexample:
  "get_geom_name model0 (decor 1) = get_geom_name model0 (decor (1 / 2)) \<and>
   map_sum id geom_refs (update_scene collab0 exporter0 dup_scene None) =
     Inr [(''None_id-1'', 0)]"
  by (simp add: dup_scene_def eval_defs)

lemma update_geom_refs_mono:
  assumes "update_geom c s g = Inr s'" and "inv_geoms s"
    and "map_of (geom_refs s) nm = Some h"
  shows "map_of (geom_refs s') nm = Some h"
    and "length (objects (stage s)) \<le> length (objects (stage s'))"
proof -
  from update_geom_decomp [OF assms(1)] obtain s1 h1 where
    a: "(s1 = s \<and> get_geom_name (model s) g \<in> geom_names s) \<or>
     (load_geom c s g = Inr s1 \<and> get_geom_name (model s) g \<notin> geom_names s)"
    and r: "geom_refs s' = geom_refs s1"
    and o: "objects (stage s') = (objects (stage s1))
        [h1 := object_record_update (geom_pos g) (geom_mat g)
                (if geom_objtype g = mjOBJ_TENDON then Some (geom_size g) else None)
                (alpha g > 0) (updates s) (objects (stage s1) ! h1)]"
    by blast
  from assms(3) have "nm \<in> fst ` set (geom_refs s)" by (force dest: map_of_SomeD)
  with assms(2) have k: "nm \<in> geom_names s" by (simp add: inv_geoms_def)
  from a have "map_of (geom_refs s1) nm = Some h \<and>
     length (objects (stage s)) \<le> length (objects (stage s1))"
  proof
    assume "s1 = s \<and> get_geom_name (model s) g \<in> geom_names s"
    with assms(3) show ?thesis by simp
  next
    assume l: "load_geom c s g = Inr s1 \<and> get_geom_name (model s) g \<notin> geom_names s"
    with k have "nm \<noteq> get_geom_name (model s) g" by auto
    with load_geom_Inr [of c s g s1] l assms(3) show ?thesis
      by (auto simp: update_conv')
  qed
  with r o show "map_of (geom_refs s') nm = Some h"
    and "length (objects (stage s)) \<le> length (objects (stage s'))" by simp_all
qed

lemma update_geom_objects_mono:
  assumes "update_geom c s g = Inr s'"
  shows "length (objects (stage s)) \<le> length (objects (stage s'))"
  using update_geom_Inr [OF assms] by (auto dest!: load_geom_Inr)

lemma update_geoms_loop_refs_mono:
  "update_geoms_loop c s gs = Inr s' \<Longrightarrow> inv_geoms s \<Longrightarrow>
   (map_of (geom_refs s) nm = Some h \<longrightarrow> map_of (geom_refs s') nm = Some h) \<and>
   length (objects (stage s)) \<le> length (objects (stage s'))"
proof (induction gs arbitrary: s)
  case Nil
  then show ?case by simp
next
  case (Cons g gs)
  from Cons.prems(1) obtain s1 where
    1: "update_geom c s g = Inr s1" and 2: "update_geoms_loop c s1 gs = Inr s'"
    by (auto split: sum.splits)
  from Cons.IH [OF 2 update_geom_inv_geoms [OF 1 Cons.prems(2)]]
    update_geom_refs_mono(1) [OF 1 Cons.prems(2)] update_geom_objects_mono [OF 1]
  show ?case by auto
qed

lemma update_scene_refs_mono:
  assumes "update_scene c s d opt = Inr s'" and "inv s"
    and "map_of (geom_refs s) nm = Some h"
  shows "map_of (geom_refs s') nm = Some h"
proof -
  from assms(2) have ig: "inv_geoms s" and ic: "inv_counters s"
    by (simp_all add: inv_def)
  obtain sc s4 s5 s6 where
    sn: "snapshot c s d opt = Inr sc" and
    g: "update_geoms_loop c (begin_update s sc) (scene_geoms sc) = Inr s4" and
    l: "update_lights_loop s4 0 (scene_lights sc) = Inr s5" and
    k: "update_cameras_loop c d (case opt of None \<Rightarrow> scene_option_default s | Some x \<Rightarrow> x)
        s5 0 (usd_cameras s5) = Inr s6" and
    e: "s' = s6\<lparr>updates := updates s6 + 1\<rparr>"
    by (rule update_scene_decomp [OF assms(1)])
  from assms(3) have "map_of (geom_refs (begin_update s sc)) nm = Some h"
    by (simp add: begin_update_fields)
  with update_geoms_loop_refs_mono [OF g inv_geoms_begin_update [OF ig ic], of nm h]
  have "map_of (geom_refs s4) nm = Some h" by simp
  with update_lights_loop_frame [OF l] update_cameras_loop_frame [OF k] e
  show ?thesis by simp
qed

lemma exec_refs_mono:
  assumes "exec c s x = Inr s'" and "inv s" and "map_of (geom_refs s) nm = Some h"
  shows "map_of (geom_refs s') nm = Some h"
proof (cases x)
  case (UpdateScene d opt)
  with assms show ?thesis by (auto intro: update_scene_refs_mono)
next
  case (AddLight p intensity radius col name ltype)
  with assms(1) have "add_light s p intensity radius col name ltype = Inr s'" by simp
  from add_light_fields(5) [OF this] assms(3) show ?thesis by simp
next
  case (AddCamera p rot name)
  with assms(1) have "add_camera c s p rot name = Inr s'" by simp
  from add_camera_fields(5) [OF this] assms(3) show ?thesis by simp
next
  case (SaveScene ft)
  with assms(1) obtain f where a: "save_scene s ft = Inr (s', f)"
    by (auto split: sum.splits)
  from assms(2) have "inv_geoms s" by (simp add: inv_def)
  from save_scene_fields(5) [OF a this] assms(3) show ?thesis by simp
qed

lemma run_refs_mono:
  "run c s xs = Inr s' \<Longrightarrow> inv s \<Longrightarrow> map_of (geom_refs s) nm = Some h \<Longrightarrow>
   map_of (geom_refs s') nm = Some h"
proof (induction xs arbitrary: s)
  case Nil
  then show ?case by simp
next
  case (Cons x xs)
  from Cons.prems(1) obtain s1 where 1: "exec c s x = Inr s1" and 2: "run c s1 xs = Inr s'"
    by (auto split: sum.splits)
  from Cons.IH [OF 2 exec_inv [OF 1 Cons.prems(2)] exec_refs_mono [OF 1 Cons.prems(2,3)]]
  show ?case .
qed

text \<open>
  C8. Once a session has created the record of a name, every later call of the session
  keeps the name in the record map with the same record, which stays a prim of the stage:
  the names seen only grow.
\<close>

theorem records_never_deleted:
  assumes "init c m a = Inr s0" and "run c s0 xs = Inr s"
    and "map_of (geom_refs s) nm = Some h" and "run c s ys = Inr s'"
  shows "map_of (geom_refs s') nm = Some h \<and> nm \<in> geom_names s' \<and>
         h < length (objects (stage s')) \<and> geom_record s' nm \<noteq> None \<and>
         geom_names s \<subseteq> geom_names s'"
proof -
  note i = run_inv [OF assms(2) init_inv [OF assms(1)]]
  note i' = run_inv [OF assms(4) i]
  then have g': "inv_geoms s'" by (simp add: inv_def)
  from i have g: "inv_geoms s" by (simp add: inv_def)
  note r = run_refs_mono [OF assms(4) i]
  from r [OF assms(3)] have 1: "map_of (geom_refs s') nm = Some h" .
  from inv_geoms_handle [OF g' 1] have 2: "h < length (objects (stage s'))" .
  with 1 have 3: "geom_record s' nm \<noteq> None" by (simp add: geom_record_def)
  with inv_geoms_record_None [OF g'] have 4: "nm \<in> geom_names s'" by simp
  have "n \<in> geom_names s'" if "n \<in> geom_names s" for n
  proof -
    from that g have "n \<in> fst ` set (geom_refs s)" by (simp add: inv_geoms_def)
    then obtain k where "map_of (geom_refs s) n = Some k"
      by (cases "map_of (geom_refs s) n") (auto simp: map_of_eq_None_iff)
    from r [OF this] have "n \<in> fst ` set (geom_refs s')" by (force dest: map_of_SomeD)
    with g' show ?thesis by (simp add: inv_geoms_def)
  qed
  with 1 2 3 4 show ?thesis by blast
qed

lemma run_example_c8:
  "\<exists>s. run collab0 exporter0 [UpdateScene scene1 None] = Inr s \<and>
       map_of (geom_refs s) ''None_id-1'' = Some 1 \<and>
       (\<exists>s'. run collab0 s [UpdateScene scene2 None, SaveScene ''usd''] = Inr s')"
  by (simp add: scene1_def scene2_def eval_defs)

theorem records_never_deleted_witness:
  "\<exists>s s'. init collab0 model0 default_args = Inr exporter0 \<and>
     run collab0 exporter0 [UpdateScene scene1 None] = Inr s \<and>
     map_of (geom_refs s) ''None_id-1'' = Some 1 \<and>
     run collab0 s [UpdateScene scene2 None, SaveScene ''usd''] = Inr s' \<and>
     map_of (geom_refs s') ''None_id-1'' = Some 1 \<and> ''None_id-1'' \<in> geom_names s' \<and>
     1 < length (objects (stage s'))"
proof -
  from run_example_c8 obtain s s' where
    1: "run collab0 exporter0 [UpdateScene scene1 None] = Inr s" and
    2: "map_of (geom_refs s) ''None_id-1'' = Some 1" and
    3: "run collab0 s [UpdateScene scene2 None, SaveScene ''usd''] = Inr s'"
    by blast
  from records_never_deleted [OF init0 1 2 3] init0 1 2 3 show ?thesis by blast
qed

lemma geom_record_cong:
  "geom_refs s1 = geom_refs s \<Longrightarrow> objects (stage s1) = objects (stage s) \<Longrightarrow>
   geom_record s1 nm = geom_record s nm"
  by (simp add: geom_record_def split: option.splits)

lemma geom_record_begin_update:
  assumes "inv_counters s"
  shows "geom_record (begin_update s sc) nm = (if updates s = 0 then None else geom_record s nm)"
  using assms
  by (simp add: geom_record_def begin_update_fields inv_counters_def split: option.splits)

lemma update_scene_geom_record:
  assumes "update_scene c s d opt = Inr s'"
  obtains sc s4 where "snapshot c s d opt = Inr sc"
    "update_geoms_loop c (begin_update s sc) (scene_geoms sc) = Inr s4"
    "\<forall>nm. geom_record s' nm = geom_record s4 nm"
proof -
  obtain sc s4 s5 s6 where
    sn: "snapshot c s d opt = Inr sc" and
    g: "update_geoms_loop c (begin_update s sc) (scene_geoms sc) = Inr s4" and
    l: "update_lights_loop s4 0 (scene_lights sc) = Inr s5" and
    k: "update_cameras_loop c d (case opt of None \<Rightarrow> scene_option_default s | Some x \<Rightarrow> x)
        s5 0 (usd_cameras s5) = Inr s6" and
    e: "s' = s6\<lparr>updates := updates s6 + 1\<rparr>"
    by (rule update_scene_decomp [OF assms])
  note fl = update_lights_loop_frame [OF l] and fk = update_cameras_loop_frame [OF k]
  have "geom_record s' nm = geom_record s4 nm" for nm
  proof -
    have "geom_record s' nm = geom_record s6 nm"
      unfolding e by (rule geom_record_cong) simp_all
    also have "\<dots> = geom_record s5 nm"
      by (rule geom_record_cong) (simp_all add: fk)
    also have "\<dots> = geom_record s4 nm"
      by (rule geom_record_cong) (simp_all add: fl)
    finally show ?thesis .
  qed
  then have "\<forall>nm. geom_record s' nm = geom_record s4 nm" by blast
  from that [OF sn g this] show ?thesis .
qed

lemma update_scene_visible:
  assumes "update_scene c s d opt = Inr s'" and "inv s"
    and "snapshot c s d opt = Inr sc" and "appears_visible (model s) nm sc"
    and "updates s = 0 \<or> (\<exists>ob. geom_record s nm = Some ob \<and> visible_until (updates s) ob)"
  shows "\<exists>ob. geom_record s' nm = Some ob \<and> visible_until (updates s + 1) ob"
proof -
  from assms(2) have ig: "inv_geoms s" and ic: "inv_counters s" by (simp_all add: inv_def)
  obtain sc' s4 where sn: "snapshot c s d opt = Inr sc'"
    and g: "update_geoms_loop c (begin_update s sc') (scene_geoms sc') = Inr s4"
    and r: "\<forall>nm. geom_record s' nm = geom_record s4 nm"
    by (rule update_scene_geom_record [OF assms(1)])
  from sn assms(3) have sc: "sc' = sc" by simp
  let ?b = "begin_update s sc"
  have m: "model ?b = model s" "updates ?b = updates s" by (simp_all add: begin_update_fields)
  from assms(4) have
    v: "\<forall>g \<in> set (scene_geoms sc). get_geom_name (model ?b) g = nm \<longrightarrow> alpha g > 0"
    and ex: "\<exists>g \<in> set (scene_geoms sc). get_geom_name (model ?b) g = nm"
    by (auto simp: appears_visible_def m list_all_iff list_ex_iff)
  from ic have u: "0 \<le> updates ?b" by (simp add: m inv_counters_def)
  have p: "case geom_record ?b nm of None \<Rightarrow> updates ?b = 0
      | Some ob \<Rightarrow> visible_until (updates ?b) ob \<or> visible_until (updates ?b + 1) ob"
    using assms(5) by (auto simp: geom_record_begin_update [OF ic] m)
  from update_geoms_loop_visible [OF g [unfolded sc] inv_geoms_begin_update [OF ig ic] u v]
    ex p
  have "\<exists>ob. geom_record s4 nm = Some ob \<and> visible_until (updates ?b + 1) ob" by blast
  with r m show ?thesis by simp
qed

lemma update_scene_absent:
  assumes "update_scene c s d opt = Inr s'" and "inv s"
    and "snapshot c s d opt = Inr sc" and "absent (model s) nm sc" and "updates s \<noteq> 0"
  shows "geom_record s' nm = geom_record s nm"
proof -
  from assms(2) have ig: "inv_geoms s" and ic: "inv_counters s" by (simp_all add: inv_def)
  obtain sc' s4 where sn: "snapshot c s d opt = Inr sc'"
    and g: "update_geoms_loop c (begin_update s sc') (scene_geoms sc') = Inr s4"
    and r: "\<forall>nm. geom_record s' nm = geom_record s4 nm"
    by (rule update_scene_geom_record [OF assms(1)])
  from sn assms(3) have sc: "sc' = sc" by simp
  let ?b = "begin_update s sc"
  have m: "model ?b = model s" by (simp add: begin_update_fields)
  from assms(4) have "\<forall>g \<in> set (scene_geoms sc). get_geom_name (model ?b) g \<noteq> nm"
    by (simp add: absent_def m list_all_iff)
  from update_geoms_loop_absent [OF g [unfolded sc] inv_geoms_begin_update [OF ig ic] this]
  have "geom_record s4 nm = geom_record ?b nm" .
  with r assms(5) show ?thesis by (simp add: geom_record_begin_update [OF ic])
qed

lemma run_updates_Nil: "run_updates c s [] = Inr s"
  by (simp add: run_updates_def)

lemma run_updates_Cons:
  "run_updates c s ((d, opt) # ds) =
     (case update_scene c s d opt of Inl e \<Rightarrow> Inl e | Inr s1 \<Rightarrow> run_updates c s1 ds)"
  by (simp add: run_updates_def split: sum.splits)

lemma run_append:
  "run c s (xs @ ys) = Inr s' \<Longrightarrow> \<exists>s1. run c s xs = Inr s1 \<and> run c s1 ys = Inr s'"
  by (induction xs arbitrary: s) (auto split: sum.splits)

lemma run_updates_append:
  "run_updates c s (ds1 @ ds2) = Inr s' \<Longrightarrow>
   \<exists>s1. run_updates c s ds1 = Inr s1 \<and> run_updates c s1 ds2 = Inr s'"
  unfolding run_updates_def by (simp add: run_append)

lemma snapshot_cong:
  "scene_option_default s1 = scene_option_default s \<Longrightarrow> snapshot c s1 d opt = snapshot c s d opt"
  by (simp add: snapshot_def split: option.splits)

lemma run_updates_visible:
  "run_updates c s ds = Inr s' \<Longrightarrow> inv s \<Longrightarrow>
   \<forall>(d, opt) \<in> set ds. \<exists>sc. snapshot c s d opt = Inr sc \<and> appears_visible (model s) nm sc \<Longrightarrow>
   updates s = 0 \<or> (\<exists>ob. geom_record s nm = Some ob \<and> visible_until (updates s) ob) \<Longrightarrow>
   inv s' \<and> updates s' = updates s + int (length ds) \<and> model s' = model s \<and>
   scene_option_default s' = scene_option_default s \<and>
   (ds \<noteq> [] \<longrightarrow> (\<exists>ob. geom_record s' nm = Some ob \<and> visible_until (updates s') ob))"
proof (induction ds arbitrary: s)
  case Nil
  then show ?case by (simp add: run_updates_Nil)
next
  case (Cons x ds)
  obtain d opt where x: "x = (d, opt)" by (cases x)
  with Cons.prems(1) obtain s1 where
    1: "update_scene c s d opt = Inr s1" and 2: "run_updates c s1 ds = Inr s'"
    by (auto simp: run_updates_Cons split: sum.splits)
  note f = update_scene_fields [OF 1]
  note i1 = update_scene_inv [OF 1 Cons.prems(2)]
  from Cons.prems(3) x obtain sc where
    sc: "snapshot c s d opt = Inr sc" "appears_visible (model s) nm sc" by auto
  from update_scene_visible [OF 1 Cons.prems(2) sc Cons.prems(4)] f(2)
  have v1: "\<exists>ob. geom_record s1 nm = Some ob \<and> visible_until (updates s1) ob" by simp
  from Cons.prems(3) have "\<forall>(d, opt) \<in> set ds.
      \<exists>sc. snapshot c s d opt = Inr sc \<and> appears_visible (model s) nm sc" by simp
  then have h: "\<forall>(d, opt) \<in> set ds.
      \<exists>sc. snapshot c s1 d opt = Inr sc \<and> appears_visible (model s1) nm sc"
    by (simp add: f(1) snapshot_cong [OF f(6)])
  from Cons.IH [OF 2 i1 h] v1 have
    r: "inv s'" "updates s' = updates s1 + int (length ds)" "model s' = model s1"
       "scene_option_default s' = scene_option_default s1"
       "ds \<noteq> [] \<longrightarrow> (\<exists>ob. geom_record s' nm = Some ob \<and> visible_until (updates s') ob)"
    by blast+
  have "\<exists>ob. geom_record s' nm = Some ob \<and> visible_until (updates s') ob"
  proof (cases "ds = []")
    case True
    with 2 have "s' = s1" by (simp add: run_updates_Nil)
    with v1 show ?thesis by simp
  next
    case False
    with r(5) show ?thesis by simp
  qed
  with r f show ?case by simp
qed

lemma run_updates_absent:
  "run_updates c s ds = Inr s' \<Longrightarrow> inv s \<Longrightarrow> updates s \<noteq> 0 \<Longrightarrow>
   \<forall>(d, opt) \<in> set ds. \<exists>sc. snapshot c s d opt = Inr sc \<and> absent (model s) nm sc \<Longrightarrow>
   inv s' \<and> geom_record s' nm = geom_record s nm"
proof (induction ds arbitrary: s)
  case Nil
  then show ?case by (simp add: run_updates_Nil)
next
  case (Cons x ds)
  obtain d opt where x: "x = (d, opt)" by (cases x)
  with Cons.prems(1) obtain s1 where
    1: "update_scene c s d opt = Inr s1" and 2: "run_updates c s1 ds = Inr s'"
    by (auto simp: run_updates_Cons split: sum.splits)
  note f = update_scene_fields [OF 1]
  note i1 = update_scene_inv [OF 1 Cons.prems(2)]
  from Cons.prems(2) have "0 \<le> updates s" by (simp add: inv_def inv_counters_def)
  with f(2) have u1: "updates s1 \<noteq> 0" by simp
  from Cons.prems(4) x obtain sc where
    sc: "snapshot c s d opt = Inr sc" "absent (model s) nm sc" by auto
  note a1 = update_scene_absent [OF 1 Cons.prems(2) sc Cons.prems(3)]
  from Cons.prems(4) have "\<forall>(d, opt) \<in> set ds.
      \<exists>sc. snapshot c s d opt = Inr sc \<and> absent (model s) nm sc" by simp
  then have h: "\<forall>(d, opt) \<in> set ds.
      \<exists>sc. snapshot c s1 d opt = Inr sc \<and> absent (model s1) nm sc"
    by (simp add: f(1) snapshot_cong [OF f(6)])
  from Cons.IH [OF 2 i1 u1 h] a1 show ?case by simp
qed

lemma save_scene_geom_record:
  assumes "save_scene s ft = Inr (s', f)" and "inv_geoms s" and "geom_record s nm = Some ob"
  shows "geom_record s' nm = Some (ob\<lparr>visibility_samples := (visibility_samples ob)
               (last_visible_frame ob + 1 \<mapsto> False)\<rparr>)"
proof -
  note a = save_scene_Inr [OF assms(1)]
  from assms(2) have d: "distinct (map snd (geom_refs s))" by (simp add: inv_geoms_def)
  note b = finalize_visibility_objects [OF a(2) d]
  from assms(3) obtain h where h: "map_of (geom_refs s) nm = Some h"
    "h < length (objects (stage s))" "objects (stage s) ! h = ob"
    by (auto simp: geom_record_def split: option.splits if_splits)
  from h(1) have "h \<in> snd ` set (geom_refs s)" by (force dest: map_of_SomeD)
  with b h have "objects (stage s') ! h = ob\<lparr>visibility_samples := (visibility_samples ob)
               (last_visible_frame ob + 1 \<mapsto> False)\<rparr>"
    "length (objects (stage s')) = length (objects (stage s))" by simp_all
  with h save_scene_fields(5) [OF assms(1,2)] show ?thesis by (simp add: geom_record_def)
qed

text \<open>
  C2 as the code has it. Take a session of \<^verbatim>\<open>update_scene\<close> calls and a name that, in the
  snapshots of the first \<open>k \<ge> 1\<close> calls, is derived by some instance and only by
  instances with a positive alpha, and is derived by no instance of a later snapshot.
  After \<^verbatim>\<open>save_scene\<close> the record of the name, in the exported document, has the
  visibility samples: true at the time samples 0 to \<open>k - 1\<close> (those written by the calls
  1 to \<open>k\<close>), false at time sample \<open>k\<close> (the one call \<open>k + 1\<close> writes at), and none
  after.
\<close>

theorem visibility_after_last_appearance:
  assumes "init c m a = Inr s0" and "ds1 \<noteq> []"
    and "\<forall>(d, opt) \<in> set ds1. \<exists>sc. snapshot c s0 d opt = Inr sc \<and> appears_visible m nm sc"
    and "\<forall>(d, opt) \<in> set ds2. \<exists>sc. snapshot c s0 d opt = Inr sc \<and> absent m nm sc"
    and "run_updates c s0 (ds1 @ ds2) = Inr s" and "save_scene s ft = Inr (s', f)"
  shows "\<exists>h. map_of (geom_refs s') nm = Some h \<and> h < length (objects (file_document f)) \<and>
           (\<forall>t. visibility_samples (objects (file_document f) ! h) t =
              (if 0 \<le> t \<and> t < int (length ds1) then Some True
               else if t = int (length ds1) then Some False else None))"
proof -
  note i0 = init_inv [OF assms(1)]
  note f0 = init_Inr [OF assms(1)]
  from run_updates_append [OF assms(5)] obtain s1 where
    1: "run_updates c s0 ds1 = Inr s1" and 2: "run_updates c s1 ds2 = Inr s" by blast
  from assms(3) f0(3) have v: "\<forall>(d, opt) \<in> set ds1.
      \<exists>sc. snapshot c s0 d opt = Inr sc \<and> appears_visible (model s0) nm sc" by simp
  from run_updates_visible [OF 1 i0 v] f0(7) assms(2) obtain ob where
    i1: "inv s1" and u1: "updates s1 = int (length ds1)" and m1: "model s1 = m"
    and o1: "scene_option_default s1 = scene_option_default s0"
    and r1: "geom_record s1 nm = Some ob" and v1: "visible_until (int (length ds1)) ob"
    using f0(3) by auto
  from assms(2) u1 have n1: "updates s1 \<noteq> 0" by simp
  from assms(4) have "\<forall>(d, opt) \<in> set ds2.
      \<exists>sc. snapshot c s1 d opt = Inr sc \<and> absent (model s1) nm sc"
    by (simp add: m1 snapshot_cong [OF o1])
  from run_updates_absent [OF 2 i1 n1 this] r1 have
    i2: "inv s" and r2: "geom_record s nm = Some ob" by simp_all
  from i2 have g2: "inv_geoms s" by (simp add: inv_def)
  let ?ob = "ob\<lparr>visibility_samples := (visibility_samples ob)
               (last_visible_frame ob + 1 \<mapsto> False)\<rparr>"
  from save_scene_geom_record [OF assms(6) g2 r2] have r3: "geom_record s' nm = Some ?ob" .
  then obtain h where h: "map_of (geom_refs s') nm = Some h"
    "h < length (objects (stage s'))" "objects (stage s') ! h = ?ob"
    by (auto simp: geom_record_def split: option.splits if_splits)
  from assms(2) have k: "0 < int (length ds1)" by simp
  with v1 have "visibility_samples ?ob t =
              (if 0 \<le> t \<and> t < int (length ds1) then Some True
               else if t = int (length ds1) then Some False else None)" for t
    by (auto simp: visible_until_def)
  with h save_scene_Inr(4) [OF assms(6)] show ?thesis by auto
qed

lemma run_example_c2:
  "\<exists>s. run_updates collab0 exporter0 ([(scene1, None), (scene1, None)] @ [(scene2, None)]) = Inr s"
  by (simp add: run_updates_def scene1_def scene2_def eval_defs)

theorem visibility_after_last_appearance_witness:
  "\<exists>s s' f h. init collab0 model0 default_args = Inr exporter0 \<and>
     run_updates collab0 exporter0 ([(scene1, None), (scene1, None)] @ [(scene2, None)]) = Inr s \<and>
     save_scene s ''usd'' = Inr (s', f) \<and>
     map_of (geom_refs s') ''None_id-1'' = Some h \<and>
     visibility_samples (objects (file_document f) ! h) 0 = Some True \<and>
     visibility_samples (objects (file_document f) ! h) 1 = Some True \<and>
     visibility_samples (objects (file_document f) ! h) 2 = Some False \<and>
     visibility_samples (objects (file_document f) ! h) 3 = None"
proof -
  from run_example_c2 obtain s where
    r: "run_updates collab0 exporter0 ([(scene1, None), (scene1, None)] @ [(scene2, None)]) = Inr s"
    by blast
  then have "run collab0 exporter0
      (map (\<lambda>(data, scene_option). UpdateScene data scene_option)
         ([(scene1, None), (scene1, None)] @ [(scene2, None)])) = Inr s"
    by (simp add: run_updates_def)
  from run_inv [OF this init_inv [OF init0]] have "inv_geoms s" by (simp add: inv_def)
  from save_scene_succeeds [OF this, of "''usd''"] obtain s' f where
    sv: "save_scene s ''usd'' = Inr (s', f)" by auto
  have v: "\<forall>(d, opt) \<in> set [(scene1, None), (scene1, None)].
      \<exists>sc. snapshot collab0 exporter0 d opt = Inr sc \<and> appears_visible model0 ''None_id-1'' sc"
    by (simp add: appears_visible_def scene1_def eval_defs)
  have a: "\<forall>(d, opt) \<in> set [(scene2, None)].
      \<exists>sc. snapshot collab0 exporter0 d opt = Inr sc \<and> absent model0 ''None_id-1'' sc"
    by (simp add: absent_def scene2_def eval_defs)
  from visibility_after_last_appearance [OF init0 _ v a r sv] obtain h where
    "map_of (geom_refs s') ''None_id-1'' = Some h"
    "\<forall>t. visibility_samples (objects (file_document f) ! h) t =
              (if 0 \<le> t \<and> t < 2 then Some True
               else if t = 2 then Some False else None)"
    by auto
  with init0 r sv show ?thesis by auto
qed

text \<open>
  C2 as stated fails for an instance whose alpha is 0: it is in the snapshot of call 1
  and of no later call, and its record has the visibility false at time sample 0 and no
  sample at 1.
\<close>

theorem invisible_instance_counterexample:
  "exported_visibility collab0 exporter0 [(ghost_scene, None)] ''usd'' ''None_id-1'' 0
     = Inr (Some (Some False)) \<and>
   exported_visibility collab0 exporter0 [(ghost_scene, None)] ''usd'' ''None_id-1'' 1
     = Inr (Some None) \<and>
   list_ex (\<lambda>g. get_geom_name model0 g = ''None_id-1'') (scene_geoms ghost_scene)"
  by (simp add: exported_visibility_def run_updates_def ghost_scene_def eval_defs)

lemma load_cameras_loop_length:
  "length (usd_cameras (load_cameras_loop s ns)) = length (usd_cameras s) + length ns"
  by (induction ns arbitrary: s) (simp_all add: define_camera_def)

lemma load_cameras_length:
  "length (usd_cameras (load_cameras s)) =
     length (usd_cameras s) + (case camera_names s of None \<Rightarrow> 0 | Some ns \<Rightarrow> length ns)"
  by (simp add: load_cameras_def load_cameras_loop_length split: option.splits)

lemma load_lights_length:
  "length (usd_lights (load_lights s)) = length (usd_lights s) + length (scene_lights (scene s))"
  using load_lights_loop_slots [of s 0 "scene_lights (scene s)"]
  by (auto simp: load_lights_def)

lemma update_geoms_loop_objects_mono:
  "update_geoms_loop c s gs = Inr s' \<Longrightarrow>
   length (objects (stage s)) \<le> length (objects (stage s'))"
proof (induction gs arbitrary: s)
  case Nil
  then show ?case by simp
next
  case (Cons x gs)
  from Cons.prems obtain s1 where
    1: "update_geom c s x = Inr s1" and 2: "update_geoms_loop c s1 gs = Inr s'"
    by (auto split: sum.splits)
  from update_geom_objects_mono [OF 1] Cons.IH [OF 2] show ?case by simp
qed

lemma update_scene_frame:
  assumes "update_scene c s d opt = Inr s'" and "snapshot c s d opt = Inr sc"
  shows "usd_lights s' = usd_lights (begin_update s sc)"
    "usd_cameras s' = usd_cameras (begin_update s sc)"
    "length (lights (stage s')) = length (lights (stage (begin_update s sc)))"
    "length (cameras (stage s')) = length (cameras (stage (begin_update s sc)))"
    "end_time_code (stage s') = end_time_code (stage (begin_update s sc))"
    "length (objects (stage (begin_update s sc))) \<le> length (objects (stage s'))"
proof -
  obtain sc' s4 s5 s6 where
    sn: "snapshot c s d opt = Inr sc'" and
    g: "update_geoms_loop c (begin_update s sc') (scene_geoms sc') = Inr s4" and
    l: "update_lights_loop s4 0 (scene_lights sc') = Inr s5" and
    k: "update_cameras_loop c d (case opt of None \<Rightarrow> scene_option_default s | Some x \<Rightarrow> x)
        s5 0 (usd_cameras s5) = Inr s6" and
    e: "s' = s6\<lparr>updates := updates s6 + 1\<rparr>"
    by (rule update_scene_decomp [OF assms(1)])
  from sn assms(2) have sc: "sc' = sc" by simp
  note fg = update_geoms_loop_frame [OF g [unfolded sc]]
    and fl = update_lights_loop_frame [OF l] and fk = update_cameras_loop_frame [OF k]
  note om = update_geoms_loop_objects_mono [OF g [unfolded sc]]
  have "usd_lights s' = usd_lights s6" "usd_cameras s' = usd_cameras s6"
    "stage s' = stage s6" unfolding e by simp_all
  with fg fl fk om show "usd_lights s' = usd_lights (begin_update s sc)"
    "usd_cameras s' = usd_cameras (begin_update s sc)"
    "length (lights (stage s')) = length (lights (stage (begin_update s sc)))"
    "length (cameras (stage s')) = length (cameras (stage (begin_update s sc)))"
    "end_time_code (stage s') = end_time_code (stage (begin_update s sc))"
    "length (objects (stage (begin_update s sc))) \<le> length (objects (stage s'))"
    by simp_all
qed

text \<open>
  C7. Before a call of \<^verbatim>\<open>update_scene\<close> the update counter is the number of calls of
  \<^verbatim>\<open>update_scene\<close> made so far, and the call adds one to it. So the branch guarded by
  \<^verbatim>\<open>updates == 0\<close> runs in the first call, where it creates a new stage (whatever end
  time code the old one had is gone) and fills the light and camera lists, and in no
  later call: there the lists and the prims of the stage are kept.
\<close>

theorem setup_on_first_call_only:
  assumes "init c m a = Inr s0" and "run c s0 xs = Inr s"
    and "update_scene c s d opt = Inr s'" and "snapshot c s d opt = Inr sc"
  shows "updates s = int (count_updates xs) \<and> updates s' = updates s + 1 \<and>
    (count_updates xs = 0 \<longrightarrow>
       begin_update s sc = load_cameras (load_lights (initialize_usd_stage
           (s\<lparr>frame_count := frame_count s + 1, scene := sc\<rparr>))) \<and>
       length (usd_lights s') = length (scene_lights sc) \<and>
       length (usd_cameras s') = (case camera_names s of None \<Rightarrow> 0 | Some ns \<Rightarrow> length ns) \<and>
       end_time_code (stage s') = None) \<and>
    (count_updates xs \<noteq> 0 \<longrightarrow>
       begin_update s sc = s\<lparr>frame_count := frame_count s + 1, scene := sc\<rparr> \<and>
       usd_lights s' = usd_lights s \<and> usd_cameras s' = usd_cameras s \<and>
       length (lights (stage s')) = length (lights (stage s)) \<and>
       length (cameras (stage s')) = length (cameras (stage s)) \<and>
       length (objects (stage s)) \<le> length (objects (stage s')) \<and>
       end_time_code (stage s') = end_time_code (stage s))"
proof -
  note i0 = init_inv [OF assms(1)]
  note i = run_inv [OF assms(2) i0]
  from run_counters [OF assms(2) i0] init_Inr(7) [OF assms(1)]
  have u: "updates s = int (count_updates xs)" by simp
  note f = update_scene_fields [OF assms(3)]
  note fr = update_scene_frame [OF assms(3,4)]
  have first: "begin_update s sc = load_cameras (load_lights (initialize_usd_stage
           (s\<lparr>frame_count := frame_count s + 1, scene := sc\<rparr>))) \<and>
       length (usd_lights s') = length (scene_lights sc) \<and>
       length (usd_cameras s') = (case camera_names s of None \<Rightarrow> 0 | Some ns \<Rightarrow> length ns) \<and>
       end_time_code (stage s') = None" if z: "count_updates xs = 0"
  proof -
    from z u have u0: "updates s = 0" by simp
    with i have e: "usd_lights s = []" "usd_cameras s = []"
      by (simp_all add: inv_def inv_counters_def)
    let ?i = "initialize_usd_stage (s\<lparr>frame_count := frame_count s + 1, scene := sc\<rparr>)"
    from u0 have b: "begin_update s sc = load_cameras (load_lights ?i)"
      by (simp add: begin_update_def)
    have "length (usd_lights (load_cameras (load_lights ?i))) = length (scene_lights sc)"
      using e by (simp add: load_cameras_fields load_lights_length initialize_usd_stage_def)
    moreover have "length (usd_cameras (load_cameras (load_lights ?i))) =
        (case camera_names s of None \<Rightarrow> 0 | Some ns \<Rightarrow> length ns)"
      using e by (simp add: load_cameras_length load_lights_fields initialize_usd_stage_def)
    moreover have "end_time_code (stage (load_cameras (load_lights ?i))) = None"
      by (simp add: load_cameras_fields load_lights_fields initialize_usd_stage_def
          CreateInMemory_def)
    ultimately show ?thesis using fr b by simp
  qed
  have later: "begin_update s sc = s\<lparr>frame_count := frame_count s + 1, scene := sc\<rparr> \<and>
       usd_lights s' = usd_lights s \<and> usd_cameras s' = usd_cameras s \<and>
       length (lights (stage s')) = length (lights (stage s)) \<and>
       length (cameras (stage s')) = length (cameras (stage s)) \<and>
       length (objects (stage s)) \<le> length (objects (stage s')) \<and>
       end_time_code (stage s') = end_time_code (stage s)" if z: "count_updates xs \<noteq> 0"
  proof -
    from z u have "updates s \<noteq> 0" by simp
    then have b: "begin_update s sc = s\<lparr>frame_count := frame_count s + 1, scene := sc\<rparr>"
      by (simp add: begin_update_def)
    with fr show ?thesis by simp
  qed
  from u f(2) first later show ?thesis by blast
qed

lemma run_example_c7:
  "\<exists>s. run collab0 exporter0
         [AddLight (1, 1, 1) 5 None (1, 1, 1) ''light_1'' ''sphere'', SaveScene ''usd''] = Inr s \<and>
       end_time_code (stage s) = Some 0 \<and> length (lights (stage s)) = 1 \<and>
       (\<exists>s'. update_scene collab0 s scene1 None = Inr s' \<and>
          (\<exists>s''. update_scene collab0 s' scene2 None = Inr s''))"
  by (simp add: scene1_def scene2_def eval_defs)

theorem setup_on_first_call_only_witness:
  "\<exists>s s' s''. init collab0 model0 default_args = Inr exporter0 \<and>
     run collab0 exporter0
       [AddLight (1, 1, 1) 5 None (1, 1, 1) ''light_1'' ''sphere'', SaveScene ''usd''] = Inr s \<and>
     end_time_code (stage s) = Some 0 \<and>
     update_scene collab0 s scene1 None = Inr s' \<and>
     updates s = 0 \<and> updates s' = 1 \<and> length (usd_lights s') = 2 \<and>
     end_time_code (stage s') = None \<and>
     update_scene collab0 s' scene2 None = Inr s'' \<and>
     updates s'' = 2 \<and> usd_lights s'' = usd_lights s' \<and>
     length (lights (stage s'')) = length (lights (stage s'))"
proof -
  let ?xs = "[AddLight (1, 1, 1) 5 None (1, 1, 1) ''light_1'' ''sphere'', SaveScene ''usd'']
               :: (mjvScene, unit) call list"
  from run_example_c7 obtain s s' s'' where
    1: "run collab0 exporter0 ?xs = Inr s" and e: "end_time_code (stage s) = Some 0" and
    2: "update_scene collab0 s scene1 None = Inr s'" and
    3: "update_scene collab0 s' scene2 None = Inr s''"
    by blast
  have 4: "run collab0 exporter0 (?xs @ [UpdateScene scene1 None]) = Inr s'"
    using 1 2 by (simp add: eval_defs split: sum.splits)
  have sn1: "snapshot collab0 s scene1 None = Inr scene1"
    and sn2: "snapshot collab0 s' scene2 None = Inr scene2"
    by (simp_all add: snapshot_def collab0_def)
  from setup_on_first_call_only [OF init0 1 2 sn1] setup_on_first_call_only [OF init0 4 3 sn2]
    init0 1 2 3 e
  show ?thesis by (auto simp: count_updates_def scene1_def scene_of_def)
qed

lemma load_lights_loop_fresh:
  "\<forall>l \<in> set (lights (stage s)). light_samples l = Map.empty \<Longrightarrow>
   \<forall>l \<in> set (lights (stage (load_lights_loop s i ls))). light_samples l = Map.empty"
proof (induction ls arbitrary: s i)
  case Nil
  then show ?case by simp
next
  case (Cons l ls)
  show ?case
  proof (cases "allclose_origin (light_pos l)")
    case True
    from Cons.prems have "\<forall>x \<in> set (lights (stage (s\<lparr>usd_lights := usd_lights s @ [None]\<rparr>))).
        light_samples x = Map.empty" by simp
    from Cons.IH [OF this] True show ?thesis by simp
  next
    case False
    from Cons.prems have "\<forall>x \<in> set (lights (stage
       (s\<lparr>stage := (stage s)\<lparr>lights := lights (stage s) @ [new_light USDSphereLight (str_nat i) None]\<rparr>,
          usd_lights := usd_lights s @ [Some (length (lights (stage s)))]\<rparr>))).
        light_samples x = Map.empty"
      by (simp add: new_light_def)
    from Cons.IH [OF this] False show ?thesis by (simp add: define_light_def)
  qed
qed

lemma light_record_in_set:
  "light_record s i = Some r \<Longrightarrow> r \<in> set (lights (stage s))"
  by (auto simp: light_record_def split: if_splits option.splits)

lemma inv_light_times_begin_update:
  assumes "inv_light_times s"
  shows "inv_light_times (begin_update s sc)"
proof (cases "updates s = 0")
  case True
  let ?i = "initialize_usd_stage (s\<lparr>frame_count := frame_count s + 1, scene := sc\<rparr>)"
  have "\<forall>l \<in> set (lights (stage ?i)). light_samples l = Map.empty"
    by (simp add: initialize_usd_stage_def CreateInMemory_def)
  then have "\<forall>l \<in> set (lights (stage (load_lights ?i))). light_samples l = Map.empty"
    unfolding load_lights_def by (rule load_lights_loop_fresh)
  then have "\<forall>l \<in> set (lights (stage (load_cameras (load_lights ?i)))).
      light_samples l = Map.empty"
    by (simp add: load_cameras_fields)
  with True have "\<forall>l \<in> set (lights (stage (begin_update s sc))). light_samples l = Map.empty"
    by (simp add: begin_update_def)
  then show ?thesis
    unfolding inv_light_times_def by (auto dest!: light_record_in_set)
next
  case False
  then have "light_record (begin_update s sc) i = light_record s i" for i
    by (intro light_record_stage_cong) (simp_all add: begin_update_def)
  with assms show ?thesis
    by (simp add: inv_light_times_def begin_update_fields)
qed

lemma update_scene_light_record:
  assumes "update_scene c s d opt = Inr s'" and "inv s" and "snapshot c s d opt = Inr sc"
  shows "\<forall>k. light_record s' k =
      (if k < length (scene_lights sc) \<and> \<not> allclose_origin (light_pos (scene_lights sc ! k))
       then map_option (\<lambda>r. r\<lparr>light_samples := (light_samples r)
               (updates s \<mapsto> (light_pos (scene_lights sc ! k), light_intensity s,
                               light_diffuse (scene_lights sc ! k)))\<rparr>)
              (light_record (begin_update s sc) k)
       else light_record (begin_update s sc) k)"
proof -
  from assms(2) have il: "inv_lights s" and ic: "inv_counters s"
    by (simp_all add: inv_def)
  obtain sc' s4 s5 s6 where
    sn: "snapshot c s d opt = Inr sc'" and
    g: "update_geoms_loop c (begin_update s sc') (scene_geoms sc') = Inr s4" and
    l: "update_lights_loop s4 0 (scene_lights sc') = Inr s5" and
    k: "update_cameras_loop c d (case opt of None \<Rightarrow> scene_option_default s | Some x \<Rightarrow> x)
        s5 0 (usd_cameras s5) = Inr s6" and
    e: "s' = s6\<lparr>updates := updates s6 + 1\<rparr>"
    by (rule update_scene_decomp [OF assms(1)])
  from sn assms(3) have sc: "sc' = sc" by simp
  note fg = update_geoms_loop_frame [OF g [unfolded sc]]
    and fk = update_cameras_loop_frame [OF k]
  have r4: "light_record s4 i = light_record (begin_update s sc) i" for i
    by (rule light_record_stage_cong) (simp_all add: fg)
  from inv_lights_begin_update [OF il ic] fg have i4: "inv_lights s4"
    by (simp add: inv_lights_def)
  have u4: "updates s4 = updates s" "light_intensity s4 = light_intensity s"
    using fg by (simp_all add: begin_update_fields)
  note r5 = update_lights_loop_record [OF l [unfolded sc] i4]
  have r6: "light_record s' i = light_record s5 i" for i
  proof -
    have "light_record s' i = light_record s6 i"
      unfolding e by (rule light_record_stage_cong) simp_all
    also have "\<dots> = light_record s5 i"
      by (rule light_record_stage_cong) (simp_all add: fk)
    finally show ?thesis .
  qed
  from r5 r4 r6 u4 show ?thesis by simp
qed

lemma update_scene_inv_light_times:
  assumes "update_scene c s d opt = Inr s'" and "inv s" and "inv_light_times s"
  shows "inv_light_times s'"
proof -
  obtain sc where sn: "snapshot c s d opt = Inr sc"
    using assms(1) by (rule update_scene_decomp)
  note r = update_scene_light_record [OF assms(1,2) sn]
  note b = inv_light_times_begin_update [OF assms(3), of sc]
  note f = update_scene_fields [OF assms(1)]
  show ?thesis
    unfolding inv_light_times_def
  proof (intro allI impI)
    fix i r' t assume a: "light_record s' i = Some r'" and t: "updates s' \<le> t"
    from t f(2) have t1: "updates s \<le> t" "t \<noteq> updates s" by simp_all
    from r a obtain r0 where r0: "light_record (begin_update s sc) i = Some r0"
      and e: "light_samples r' t = light_samples r0 t"
      using t1(2) by (auto split: if_splits)
    from b r0 t1(1) have "light_samples r0 t = None"
      by (simp add: inv_light_times_def begin_update_fields)
    with e show "light_samples r' t = None" by simp
  qed
qed

lemma add_light_lights:
  assumes "add_light s p intensity radius col name ltype = Inr s'"
  shows "\<exists>ls. lights (stage s') = lights (stage s) @ ls"
  using assms
  by (auto simp: add_light_def define_light_def light_update_def dome_light_update_def
      split: if_splits)

lemma light_record_append:
  assumes "inv_lights s" and "usd_lights s' = usd_lights s"
    and "lights (stage s') = lights (stage s) @ ls"
  shows "light_record s' i = light_record s i"
proof (cases "i < length (usd_lights s)")
  case False
  with assms(2) show ?thesis by (simp add: light_record_def)
next
  case True
  show ?thesis
  proof (cases "usd_lights s ! i")
    case None
    with True assms(2) show ?thesis by (simp add: light_record_def)
  next
    case (Some h)
    with assms(1) True have "h < length (lights (stage s))"
      unfolding inv_lights_def slots_ok_def by blast
    with Some True assms(2,3) show ?thesis by (simp add: light_record_def nth_append)
  qed
qed

lemma exec_inv_light_times:
  assumes "exec c s x = Inr s'" and "inv s" and "inv_light_times s"
  shows "inv_light_times s'"
proof (cases x)
  case (UpdateScene d opt)
  with assms show ?thesis by (auto intro: update_scene_inv_light_times)
next
  case (AddLight p intensity radius col name ltype)
  with assms(1) have a: "add_light s p intensity radius col name ltype = Inr s'" by simp
  from add_light_lights [OF a] obtain ls where "lights (stage s') = lights (stage s) @ ls"
    by blast
  from assms(2) have "inv_lights s" by (simp add: inv_def)
  from light_record_append [OF this add_light_fields(6) [OF a] \<open>lights (stage s') = _\<close>]
    assms(3) add_light_fields(2) [OF a]
  show ?thesis by (simp add: inv_light_times_def)
next
  case (AddCamera p rot name)
  with assms(1) have a: "add_camera c s p rot name = Inr s'" by simp
  note f = add_camera_fields [OF a]
  have "light_record s' i = light_record s i" for i
    by (rule light_record_stage_cong) (simp_all add: f)
  with assms(3) f(2) show ?thesis by (simp add: inv_light_times_def)
next
  case (SaveScene ft)
  with assms(1) obtain f where a: "save_scene s ft = Inr (s', f)"
    by (auto split: sum.splits)
  from assms(2) have "inv_geoms s" by (simp add: inv_def)
  note f = save_scene_fields [OF a this]
  have "light_record s' i = light_record s i" for i
    by (rule light_record_stage_cong) (simp_all add: f)
  with assms(3) f(2) show ?thesis by (simp add: inv_light_times_def)
qed

lemma run_inv_light_times:
  "run c s xs = Inr s' \<Longrightarrow> inv s \<Longrightarrow> inv_light_times s \<Longrightarrow> inv_light_times s'"
proof (induction xs arbitrary: s)
  case Nil
  then show ?case by simp
next
  case (Cons x xs)
  from Cons.prems(1) obtain s1 where 1: "exec c s x = Inr s1" and 2: "run c s1 xs = Inr s'"
    by (auto split: sum.splits)
  from Cons.IH [OF 2 exec_inv [OF 1 Cons.prems(2)] exec_inv_light_times [OF 1 Cons.prems(2,3)]]
  show ?case .
qed

lemma init_inv_light_times:
  assumes "init c m a = Inr s"
  shows "inv_light_times s"
  using init_Inr(10) [OF assms] by (simp add: inv_light_times_def light_record_def)

lemma exec_usd_lights:
  assumes "exec c s x = Inr s'" and "inv s" and "updates s \<noteq> 0"
  shows "usd_lights s' = usd_lights s"
proof (cases x)
  case (UpdateScene d opt)
  with assms(1) have u: "update_scene c s d opt = Inr s'" by simp
  obtain sc where sn: "snapshot c s d opt = Inr sc"
    using u by (rule update_scene_decomp)
  from update_scene_frame(1) [OF u sn] assms(3) show ?thesis
    by (simp add: begin_update_def)
next
  case (AddLight p intensity radius col name ltype)
  with assms(1) have a: "add_light s p intensity radius col name ltype = Inr s'" by simp
  from add_light_fields(6) [OF a] show ?thesis .
next
  case (AddCamera p rot name)
  with assms(1) have a: "add_camera c s p rot name = Inr s'" by simp
  from add_camera_fields(6) [OF a] show ?thesis .
next
  case (SaveScene ft)
  with assms(1) obtain f where a: "save_scene s ft = Inr (s', f)"
    by (auto split: sum.splits)
  from assms(2) have "inv_geoms s" by (simp add: inv_def)
  from save_scene_fields(6) [OF a this] show ?thesis .
qed

lemma run_usd_lights:
  "run c s xs = Inr s' \<Longrightarrow> inv s \<Longrightarrow> updates s \<noteq> 0 \<Longrightarrow> usd_lights s' = usd_lights s"
proof (induction xs arbitrary: s)
  case Nil
  then show ?case by simp
next
  case (Cons x xs)
  from Cons.prems(1) obtain s1 where 1: "exec c s x = Inr s1" and 2: "run c s1 xs = Inr s'"
    by (auto split: sum.splits)
  from Cons.prems(2) have "0 \<le> updates s" by (simp add: inv_def inv_counters_def)
  with exec_counters(2) [OF 1 Cons.prems(2)] Cons.prems(3) have "updates s1 \<noteq> 0"
    by (simp split: if_splits)
  from Cons.IH [OF 2 exec_inv [OF 1 Cons.prems(2)] this]
    exec_usd_lights [OF 1 Cons.prems(2,3)]
  show ?case by simp
qed

text \<open>
  C6. Take a call of \<^verbatim>\<open>update_scene\<close> whose snapshot has light \<open>i\<close> at the origin (as
  \<^verbatim>\<open>np.allclose\<close> decides it). In the first call, slot \<open>i\<close> of \<^verbatim>\<open>usd_lights\<close> gets the
  placeholder \<^verbatim>\<open>None\<close>: there is no record for the light. In a later call the light
  list is as it was and the record of slot \<open>i\<close>, if there is one, is not touched. Either
  way no record of slot \<open>i\<close> has a sample at this call's time sample, and the light list
  never changes in the rest of the session, so a placeholder stays one.
\<close>

theorem origin_light_never_exported:
  assumes "init c m a = Inr s0" and "run c s0 xs = Inr s"
    and "update_scene c s d opt = Inr s'" and "snapshot c s d opt = Inr sc"
    and "i < length (scene_lights sc)"
    and "allclose_origin (light_pos (scene_lights sc ! i))"
  shows "(updates s = 0 \<longrightarrow>
            i < length (usd_lights s') \<and> usd_lights s' ! i = None \<and> light_record s' i = None) \<and>
         (updates s \<noteq> 0 \<longrightarrow>
            usd_lights s' = usd_lights s \<and> light_record s' i = light_record s i) \<and>
         (\<forall>r. light_record s' i = Some r \<longrightarrow> light_samples r (updates s) = None) \<and>
         (\<forall>ys s''. run c s' ys = Inr s'' \<longrightarrow> usd_lights s'' = usd_lights s')"
proof -
  note i0 = init_inv [OF assms(1)]
  note iv = run_inv [OF assms(2) i0]
  note it = run_inv_light_times [OF assms(2) i0 init_inv_light_times [OF assms(1)]]
  note iv' = update_scene_inv [OF assms(3) iv]
  note f = update_scene_fields [OF assms(3)]
  from update_scene_light_record [OF assms(3) iv assms(4)] assms(6)
  have r: "light_record s' i = light_record (begin_update s sc) i" by simp
  note fr = update_scene_frame(1) [OF assms(3,4)]
  have first: "i < length (usd_lights s') \<and> usd_lights s' ! i = None \<and> light_record s' i = None"
    if u0: "updates s = 0"
  proof -
    let ?i = "initialize_usd_stage (s\<lparr>frame_count := frame_count s + 1, scene := sc\<rparr>)"
    from u0 iv have e: "usd_lights ?i = []"
      by (simp add: inv_def inv_counters_def initialize_usd_stage_def)
    from load_lights_loop_slots [of ?i 0 "scene_lights sc"] e obtain new where
      n: "usd_lights (load_lights_loop ?i 0 (scene_lights sc)) = new"
         "length new = length (scene_lights sc)"
         "\<forall>k < length (scene_lights sc).
            (new ! k = None) = allclose_origin (light_pos (scene_lights sc ! k))"
      by auto
    have "scene ?i = sc" by (simp add: initialize_usd_stage_def)
    with u0 n(1) have "usd_lights (begin_update s sc) = new"
      by (simp add: begin_update_def load_cameras_fields load_lights_def)
    with fr have u': "usd_lights s' = new" by simp
    with n(2,3) assms(5,6) have "i < length (usd_lights s') \<and> usd_lights s' ! i = None"
      by simp
    then show ?thesis by (simp add: light_record_def)
  qed
  have later: "usd_lights s' = usd_lights s \<and> light_record s' i = light_record s i"
    if u: "updates s \<noteq> 0"
  proof -
    from u have b: "begin_update s sc = s\<lparr>frame_count := frame_count s + 1, scene := sc\<rparr>"
      by (simp add: begin_update_def)
    have "light_record (begin_update s sc) i = light_record s i"
      unfolding b by (rule light_record_stage_cong) simp_all
    with r fr b show ?thesis by simp
  qed
  have nosample: "light_samples r' (updates s) = None" if a: "light_record s' i = Some r'" for r'
  proof (cases "updates s = 0")
    case True
    with first a show ?thesis by simp
  next
    case False
    with later a have "light_record s i = Some r'" by simp
    with it show ?thesis by (simp add: inv_light_times_def)
  qed
  have perm: "usd_lights s'' = usd_lights s'" if "run c s' ys = Inr s''" for ys s''
  proof -
    from iv have "0 \<le> updates s" by (simp add: inv_def inv_counters_def)
    with f(2) have "updates s' \<noteq> 0" by simp
    from run_usd_lights [OF that iv' this] show ?thesis .
  qed
  from first later nosample perm show ?thesis by blast
qed

lemma run_example_c6:
  "\<exists>s'. update_scene collab0 exporter0 scene1 None = Inr s' \<and>
        usd_lights s' = [None, Some 0] \<and> updates s' = 1 \<and>
        (\<exists>s''. update_scene collab0 s' scene2 None = Inr s'' \<and>
           (\<exists>r. light_record s'' 1 = Some r \<and> light_samples r 0 \<noteq> None))"
  by (simp add: scene1_def scene2_def eval_defs)

theorem origin_light_never_exported_witness:
  "\<exists>s' s'' r. init collab0 model0 default_args = Inr exporter0 \<and>
     allclose_origin (light_pos (scene_lights scene1 ! 0)) \<and>
     update_scene collab0 exporter0 scene1 None = Inr s' \<and>
     usd_lights s' = [None, Some 0] \<and> light_record s' 0 = None \<and>
     allclose_origin (light_pos (scene_lights scene2 ! 1)) \<and>
     update_scene collab0 s' scene2 None = Inr s'' \<and>
     usd_lights s'' = [None, Some 0] \<and>
     light_record s'' 1 = Some r \<and> light_samples r 0 \<noteq> None \<and> light_samples r 1 = None"
proof -
  from run_example_c6 obtain s' s'' r where
    1: "update_scene collab0 exporter0 scene1 None = Inr s'" and
    l: "usd_lights s' = [None, Some 0]" and u: "updates s' = 1" and
    2: "update_scene collab0 s' scene2 None = Inr s''" and
    r: "light_record s'' 1 = Some r" "light_samples r 0 \<noteq> None"
    by blast
  have o1: "allclose_origin (light_pos (scene_lights scene1 ! 0))"
    and o2: "allclose_origin (light_pos (scene_lights scene2 ! 1))"
    and n1: "0 < length (scene_lights scene1)" and n2: "1 < length (scene_lights scene2)"
    by (simp_all add: scene1_def scene2_def scene_of_def light_at_def allclose_origin_def)
  have sn1: "snapshot collab0 exporter0 scene1 None = Inr scene1"
    and sn2: "snapshot collab0 s' scene2 None = Inr scene2"
    by (simp_all add: snapshot_def collab0_def)
  have r0: "run collab0 exporter0 [] = Inr exporter0" by simp
  have r1: "run collab0 exporter0 [UpdateScene scene1 None] = Inr s'" using 1 by simp
  have u0: "updates exporter0 = 0" by (simp add: exporter0_def)
  from origin_light_never_exported [OF init0 r0 1 sn1 n1 o1] u0
  have a: "light_record s' 0 = None" by simp
  from origin_light_never_exported [OF init0 r1 2 sn2 n2 o2] u r(1)
  have b: "usd_lights s'' = usd_lights s'" "light_samples r 1 = None" by simp_all
  from init0 o1 o2 1 2 l a b r show ?thesis by auto
qed

lemma update_geoms_loop_written:
  "update_geoms_loop c s gs = Inr s' \<Longrightarrow> inv_geoms s \<Longrightarrow> t = updates s \<Longrightarrow>
   (\<forall>nm. (\<exists>ob. geom_record s nm = Some ob \<and> t \<in> dom (xform_samples ob) \<and>
               t \<in> dom (visibility_samples ob)) \<longrightarrow>
         (\<exists>ob. geom_record s' nm = Some ob \<and> t \<in> dom (xform_samples ob) \<and>
               t \<in> dom (visibility_samples ob))) \<and>
   (\<forall>g \<in> set gs. \<exists>ob. geom_record s' (get_geom_name (model s) g) = Some ob \<and>
        t \<in> dom (xform_samples ob) \<and> t \<in> dom (visibility_samples ob))"
proof (induction gs arbitrary: s)
  case Nil
  then show ?case by simp
next
  case (Cons g gs)
  let ?W = "\<lambda>s nm. \<exists>ob. geom_record s nm = Some ob \<and> t \<in> dom (xform_samples ob) \<and>
               t \<in> dom (visibility_samples ob)"
  from Cons.prems(1) obtain s1 where
    1: "update_geom c s g = Inr s1" and 2: "update_geoms_loop c s1 gs = Inr s'"
    by (auto split: sum.splits)
  from update_geom_frame [OF 1] have m: "model s1 = model s" "updates s1 = updates s"
    by simp_all
  note i1 = update_geom_inv_geoms [OF 1 Cons.prems(2)]
  from update_geom_record [OF 1 Cons.prems(2)] obtain ob where
    ob: "geom_record s (get_geom_name (model s) g) = Some ob \<or>
         geom_record s (get_geom_name (model s) g) = None"
    and rec: "\<And>n. geom_record s1 n =
             (if n = get_geom_name (model s) g
              then Some (object_record_update (geom_pos g) (geom_mat g)
                (if geom_objtype g = mjOBJ_TENDON then Some (geom_size g) else None)
                (alpha g > 0) (updates s) ob)
              else geom_record s n)"
    by blast
  have w1: "?W s1 (get_geom_name (model s) g)"
    using rec [of "get_geom_name (model s) g"] Cons.prems(3)
    by (simp add: object_record_update_def)
  have k1: "?W s1 nm" if "?W s nm" for nm
  proof (cases "nm = get_geom_name (model s) g")
    case True
    with w1 show ?thesis by simp
  next
    case False
    with rec [of nm] that show ?thesis by simp
  qed
  from Cons.IH [OF 2 i1] Cons.prems(3) m have
    ih1: "\<And>nm. ?W s1 nm \<Longrightarrow> ?W s' nm" and
    ih2: "\<forall>g \<in> set gs. ?W s' (get_geom_name (model s) g)"
    by simp_all
  from ih1 [OF w1] ih2 have "\<forall>x \<in> set (g # gs). ?W s' (get_geom_name (model s) x)" by simp
  moreover from k1 ih1 have "\<forall>nm. ?W s nm \<longrightarrow> ?W s' nm" by blast
  ultimately show ?case by blast
qed

lemma update_cameras_loop_written:
  "update_cameras_loop c d opt s i cs = Inr s' \<Longrightarrow> t = updates s \<Longrightarrow>
   (\<forall>h. h < length (cameras (stage s)) \<and> t \<in> dom (camera_samples (cameras (stage s) ! h)) \<longrightarrow>
        t \<in> dom (camera_samples (cameras (stage s') ! h))) \<and>
   (\<forall>h \<in> set cs. h < length (cameras (stage s')) \<and>
        t \<in> dom (camera_samples (cameras (stage s') ! h)))"
proof (induction cs arbitrary: s i)
  case Nil
  then show ?case by simp
next
  case (Cons cam cs)
  from Cons.prems(1) obtain sc p rot st where
    1: "camera_update (stage s) cam p rot (updates s) = Inr st"
    and 2: "update_cameras_loop c d opt (s\<lparr>scene := sc, stage := st\<rparr>) (i + 1) cs = Inr s'"
    by (auto simp: Let_def split: sum.splits option.splits)
  from 1 have cam: "cam < length (cameras (stage s))" and
    st: "cameras st = (cameras (stage s))[cam := (cameras (stage s) ! cam)
           \<lparr>camera_samples := (camera_samples (cameras (stage s) ! cam))(updates s \<mapsto> (p, rot))\<rparr>]"
    by (auto simp: camera_update_def split: if_splits)
  let ?s1 = "s\<lparr>scene := sc, stage := st\<rparr>"
  from Cons.IH [OF 2] Cons.prems(2) have
    ih1: "\<And>h. h < length (cameras (stage ?s1)) \<Longrightarrow>
            t \<in> dom (camera_samples (cameras (stage ?s1) ! h)) \<Longrightarrow>
            t \<in> dom (camera_samples (cameras (stage s') ! h))" and
    ih2: "\<forall>h \<in> set cs. h < length (cameras (stage s')) \<and>
            t \<in> dom (camera_samples (cameras (stage s') ! h))"
    by simp_all
  note len = update_cameras_loop_frame [OF 2]
  have w: "t \<in> dom (camera_samples (cameras (stage ?s1) ! cam))"
    using cam st Cons.prems(2) by simp
  have keep: "t \<in> dom (camera_samples (cameras (stage ?s1) ! h))"
    if "h < length (cameras (stage s))" "t \<in> dom (camera_samples (cameras (stage s) ! h))" for h
    using that st by (cases "h = cam") simp_all
  have a: "t \<in> dom (camera_samples (cameras (stage s') ! h))"
    if "h < length (cameras (stage s))" "t \<in> dom (camera_samples (cameras (stage s) ! h))" for h
    using ih1 [of h] keep [OF that] that(1) st by simp
  have b: "cam < length (cameras (stage s')) \<and> t \<in> dom (camera_samples (cameras (stage s') ! cam))"
    using ih1 [of cam] w cam st len by simp
  from a b ih2 show ?case by simp
qed

text \<open>
  C9. In the \<open>N\<close>-th call of \<^verbatim>\<open>update_scene\<close> of a session (\<open>N - 1\<close> calls of it came
  before), both counters are \<open>N - 1\<close> when the call starts. The geometry, light and
  camera passes all run with the frame counter at \<open>N\<close> and the update counter at
  \<open>N - 1\<close>, the counter being incremented after them: both are \<open>N\<close> when the call
  returns. Every instance of the snapshot has its record's pose and visibility sampled at
  \<open>N - 1\<close>; a light away from the origin that has a record has its sample at \<open>N - 1\<close>
  and none at \<open>N\<close>; every camera record has its sample at \<open>N - 1\<close>.
\<close>

theorem counters_during_update:
  assumes "init c m a = Inr s0" and "run c s0 xs = Inr s"
    and "update_scene c s d opt = Inr s'" and "snapshot c s d opt = Inr sc"
  shows "frame_count s = int (count_updates xs) \<and> updates s = int (count_updates xs) \<and>
    frame_count s' = int (count_updates xs) + 1 \<and> updates s' = int (count_updates xs) + 1 \<and>
    (\<exists>s4 s5 s6.
       update_geoms c (begin_update s sc) = Inr s4 \<and> update_lights s4 = Inr s5 \<and>
       update_cameras c s5 d (case opt of None \<Rightarrow> scene_option_default s | Some x \<Rightarrow> x) = Inr s6 \<and>
       s' = s6\<lparr>updates := updates s6 + 1\<rparr> \<and>
       list_all (\<lambda>x. frame_count x = int (count_updates xs) + 1 \<and>
                      updates x = int (count_updates xs))
         [begin_update s sc, s4, s5, s6]) \<and>
    list_all (\<lambda>g. \<exists>ob. geom_record s' (get_geom_name (model s) g) = Some ob \<and>
                int (count_updates xs) \<in> dom (xform_samples ob) \<and>
                int (count_updates xs) \<in> dom (visibility_samples ob)) (scene_geoms sc) \<and>
    (\<forall>k r. k < length (scene_lights sc) \<and>
           \<not> allclose_origin (light_pos (scene_lights sc ! k)) \<and> light_record s' k = Some r \<longrightarrow>
           light_samples r (int (count_updates xs)) =
             Some (light_pos (scene_lights sc ! k), light_intensity s,
                   light_diffuse (scene_lights sc ! k)) \<and>
           light_samples r (int (count_updates xs) + 1) = None) \<and>
    (\<forall>k < length (usd_cameras s'). \<exists>r. camera_record s' k = Some r \<and>
           int (count_updates xs) \<in> dom (camera_samples r))"
proof -
  let ?n = "int (count_updates xs)"
  let ?o = "case opt of None \<Rightarrow> scene_option_default s | Some x \<Rightarrow> x"
  note i0 = init_inv [OF assms(1)]
  note iv = run_inv [OF assms(2) i0]
  then have ig: "inv_geoms s" and ic: "inv_counters s" by (simp_all add: inv_def)
  from run_counters [OF assms(2) i0] init_Inr(6,7) [OF assms(1)]
  have c0: "frame_count s = ?n" "updates s = ?n" by simp_all
  note f = update_scene_fields [OF assms(3)]
  from f c0 have c1: "frame_count s' = ?n + 1" "updates s' = ?n + 1" by simp_all
  obtain sc' s4 s5 s6 where
    sn: "snapshot c s d opt = Inr sc'" and
    g: "update_geoms_loop c (begin_update s sc') (scene_geoms sc') = Inr s4" and
    l: "update_lights_loop s4 0 (scene_lights sc') = Inr s5" and
    k: "update_cameras_loop c d ?o s5 0 (usd_cameras s5) = Inr s6" and
    e: "s' = s6\<lparr>updates := updates s6 + 1\<rparr>"
    by (rule update_scene_decomp [OF assms(3)])
  from sn assms(4) have sc: "sc' = sc" by simp
  note g = g [unfolded sc] and l = l [unfolded sc]
  note fg = update_geoms_loop_frame [OF g] and fl = update_lights_loop_frame [OF l]
    and fk = update_cameras_loop_frame [OF k]
  have b: "frame_count (begin_update s sc) = ?n + 1" "updates (begin_update s sc) = ?n"
    "scene (begin_update s sc) = sc" "model (begin_update s sc) = model s"
    using c0 by (simp_all add: begin_update_fields)
  have cnt: "list_all (\<lambda>x. frame_count x = ?n + 1 \<and> updates x = ?n)
         [begin_update s sc, s4, s5, s6]"
    using b fg fl fk by simp
  have ph: "update_geoms c (begin_update s sc) = Inr s4" "update_lights s4 = Inr s5"
    "update_cameras c s5 d ?o = Inr s6"
    using g l k b fg by (simp_all add: update_geoms_def update_lights_def update_cameras_def)
  have body: "\<exists>s4 s5 s6.
       update_geoms c (begin_update s sc) = Inr s4 \<and> update_lights s4 = Inr s5 \<and>
       update_cameras c s5 d ?o = Inr s6 \<and>
       s' = s6\<lparr>updates := updates s6 + 1\<rparr> \<and>
       list_all (\<lambda>x. frame_count x = ?n + 1 \<and> updates x = ?n)
         [begin_update s sc, s4, s5, s6]"
    using ph e cnt by blast
  have rg: "geom_record s' nm = geom_record s4 nm" for nm
  proof -
    have "geom_record s' nm = geom_record s6 nm"
      unfolding e by (rule geom_record_cong) simp_all
    also have "\<dots> = geom_record s5 nm"
      by (rule geom_record_cong) (simp_all add: fk)
    also have "\<dots> = geom_record s4 nm"
      by (rule geom_record_cong) (simp_all add: fl)
    finally show ?thesis .
  qed
  from update_geoms_loop_written [OF g inv_geoms_begin_update [OF ig ic], of ?n] b
  have "\<forall>g \<in> set (scene_geoms sc). \<exists>ob. geom_record s4 (get_geom_name (model s) g) = Some ob \<and>
        ?n \<in> dom (xform_samples ob) \<and> ?n \<in> dom (visibility_samples ob)"
    by simp
  then have geoms: "list_all (\<lambda>g. \<exists>ob. geom_record s' (get_geom_name (model s) g) = Some ob \<and>
                ?n \<in> dom (xform_samples ob) \<and> ?n \<in> dom (visibility_samples ob))
              (scene_geoms sc)"
    by (simp add: rg list_all_iff)
  note it = run_inv_light_times [OF assms(2) i0 init_inv_light_times [OF assms(1)]]
  note it' = update_scene_inv_light_times [OF assms(3) iv it]
  note lr = update_scene_light_record [OF assms(3) iv assms(4)]
  have lts: "light_samples r ?n =
             Some (light_pos (scene_lights sc ! k), light_intensity s,
                   light_diffuse (scene_lights sc ! k)) \<and>
           light_samples r (?n + 1) = None"
    if "k < length (scene_lights sc) \<and>
        \<not> allclose_origin (light_pos (scene_lights sc ! k)) \<and> light_record s' k = Some r"
    for k r
  proof -
    from that lr c0 obtain r0 where
      "r = r0\<lparr>light_samples := (light_samples r0)
               (?n \<mapsto> (light_pos (scene_lights sc ! k), light_intensity s,
                               light_diffuse (scene_lights sc ! k)))\<rparr>"
      by auto
    then have 1: "light_samples r ?n = Some (light_pos (scene_lights sc ! k),
         light_intensity s, light_diffuse (scene_lights sc ! k))" by simp
    from it' that c1 have 2: "light_samples r (?n + 1) = None"
      unfolding inv_light_times_def by fastforce
    from 1 2 show ?thesis by simp
  qed
  from update_cameras_loop_written [OF k, of ?n] fl fg b have
    cw: "\<forall>h \<in> set (usd_cameras s5). h < length (cameras (stage s6)) \<and>
        ?n \<in> dom (camera_samples (cameras (stage s6) ! h))"
    by simp
  have cams: "\<exists>r. camera_record s' k = Some r \<and> ?n \<in> dom (camera_samples r)"
    if "k < length (usd_cameras s')" for k
  proof -
    have u: "usd_cameras s' = usd_cameras s5" "cameras (stage s') = cameras (stage s6)"
      unfolding e using fk by simp_all
    with that have "usd_cameras s' ! k \<in> set (usd_cameras s5)" by simp
    with cw u that show ?thesis by (simp add: camera_record_def)
  qed
  from c0 c1 body geoms lts cams show ?thesis by blast
qed

lemma init_cam: "init collab0 model0 cam_args = Inr exporter_cam"
  by (simp add: init_def model0_def default_args_def load_textures_def cam_args_def
      initialize_usd_stage_def CreateInMemory_def collab0_def exporter0_def exporter_cam_def)

lemma run_example_c9:
  "\<exists>s. run collab0 exporter_cam [UpdateScene scene1 None] = Inr s \<and>
       light_intensity s = 10000 \<and> model s = model0 \<and>
       (\<exists>s'. update_scene collab0 s scene1 None = Inr s' \<and>
          length (usd_cameras s') = 1 \<and> (\<exists>r. light_record s' 1 = Some r))"
  by (simp add: scene1_def exporter_cam_def list_get_def cross_def columns_def neg_def
      camera0_def eval_defs)

theorem counters_during_update_witness:
  "\<exists>s s' ob r q. init collab0 model0 cam_args = Inr exporter_cam \<and>
     run collab0 exporter_cam [UpdateScene scene1 None] = Inr s \<and>
     update_scene collab0 s scene1 None = Inr s' \<and>
     frame_count s = 1 \<and> updates s = 1 \<and> frame_count s' = 2 \<and> updates s' = 2 \<and>
     geom_record s' ''floor_id0_geom'' = Some ob \<and> 1 \<in> dom (xform_samples ob) \<and>
     1 \<in> dom (visibility_samples ob) \<and>
     light_record s' 1 = Some r \<and> light_samples r 1 = Some ((1, 2, 3), 10000, (1, 1, 1)) \<and>
     light_samples r 2 = None \<and>
     camera_record s' 0 = Some q \<and> 1 \<in> dom (camera_samples q)"
proof -
  let ?xs = "[UpdateScene scene1 None] :: (mjvScene, unit) call list"
  from run_example_c9 obtain s s' r where
    1: "run collab0 exporter_cam ?xs = Inr s" and li: "light_intensity s = 10000" and
    m: "model s = model0" and
    2: "update_scene collab0 s scene1 None = Inr s'" and
    n: "length (usd_cameras s') = 1" and r: "light_record s' 1 = Some r"
    by blast
  have sn: "snapshot collab0 s scene1 None = Inr scene1"
    by (simp add: snapshot_def collab0_def)
  have sc: "scene_geoms scene1 = [floor_geom, decor 1]"
    "scene_lights scene1 = [light_at (0, 0, 0), light_at (1, 2, 3)]"
    by (simp_all add: scene1_def scene_of_def)
  have nm: "get_geom_name model0 floor_geom = ''floor_id0_geom''"
    by (simp add: eval_defs)
  have far: "\<not> allclose_origin (light_pos (light_at (1, 2, 3)))"
    "light_pos (light_at (1, 2, 3)) = (1, 2, 3)" "light_diffuse (light_at (1, 2, 3)) = (1, 1, 1)"
    by (simp_all add: light_at_def allclose_origin_def)
  note t = counters_during_update [OF init_cam 1 2 sn]
  from t have c: "frame_count s = 1" "updates s = 1" "frame_count s' = 2" "updates s' = 2"
    by (simp_all add: count_updates_def)
  from t sc m nm obtain ob where
    ob: "geom_record s' ''floor_id0_geom'' = Some ob" "1 \<in> dom (xform_samples ob)"
      "1 \<in> dom (visibility_samples ob)"
    by (auto simp: count_updates_def)
  from t have "\<forall>k r. k < length (scene_lights scene1) \<and>
           \<not> allclose_origin (light_pos (scene_lights scene1 ! k)) \<and> light_record s' k = Some r \<longrightarrow>
           light_samples r 1 =
             Some (light_pos (scene_lights scene1 ! k), light_intensity s,
                   light_diffuse (scene_lights scene1 ! k)) \<and>
           light_samples r 2 = None"
    by (simp add: count_updates_def)
  from this [rule_format, of 1 r] r far li sc have
    l: "light_samples r 1 = Some ((1, 2, 3), 10000, (1, 1, 1))" "light_samples r 2 = None"
    by simp_all
  from t have "\<forall>k < length (usd_cameras s'). \<exists>r. camera_record s' k = Some r \<and>
           1 \<in> dom (camera_samples r)"
    by (simp add: count_updates_def)
  with n obtain q where q: "camera_record s' 0 = Some q" "1 \<in> dom (camera_samples q)"
    by auto
  from init_cam 1 2 c ob r l q show ?thesis by blast
qed

end
